theory Spec2Isabelle
  imports Main "HOL-Library.AList"
begin

section \<open>The inventory service of app.py: clients, computers, ports\<close>

text \<open>
  The service keeps three tables and offers four requests: \<open>create_clients\<close> (POST),
  \<open>get_all_clients\<close> (GET), \<open>update_client\<close> (PUT) and \<open>delete_client\<close> (DELETE).
  A table is the list of its rows in rowid order. SQL leaves the order of a SELECT
  without ORDER BY open; the model takes the rowid order of a table scan for it. A nullable
  String column, like a JSON value that is a string or null, is a \<open>string option\<close>.
\<close>

subsection \<open>Rows and tables\<close>

type_synonym val = "string option"

record Client =
  Client_id :: nat
  Client_name :: string

record Computer =
  Computer_id :: nat
  ip_address :: string
  latency :: val
  hostname :: val
  client_id :: nat

record Port =
  Port_id :: nat
  port_number :: string
  service_name :: val
  computer_id :: nat

record database =
  clients :: "Client list"
  computers :: "Computer list"
  ports :: "Port list"

definition empty_db :: database where
  "empty_db = \<lparr>clients = [], computers = [], ports = []\<rparr>"

subsection \<open>Request bodies\<close>

text \<open>
  A Python dict is an association list in insertion order; its keys are distinct
  (\<open>dict_ok\<close>). A key that may be missing is an \<open>option\<close> around its value:
  \<open>None\<close> is the missing key, \<open>Some None\<close> the key bound to null. \<open>dict_get\<close> is
  \<open>d.get(key, default)\<close> on the looked-up key.
\<close>

type_synonym ('k, 'v) dict = "('k \<times> 'v) list"

definition dict_ok :: "('k, 'v) dict \<Rightarrow> bool" where
  "dict_ok d = distinct (map fst d)"

definition dict_get :: "'a option \<Rightarrow> 'a \<Rightarrow> 'a" where
  "dict_get entry dflt = (case entry of None \<Rightarrow> dflt | Some v \<Rightarrow> v)"

record computer_data =
  key_latency :: "val option"
  key_hostname :: "val option"
  key_ports :: "(string, val) dict option"

record client_data =
  key_client :: "string option"
  key_computers :: "(string, computer_data) dict option"

record update_data =
  upd_computers :: "(string, computer_data) dict option"

subsection \<open>Exceptions\<close>

text \<open>
  The detail of an \<open>HTTPException\<close> is either a text of the source or \<open>str(e)\<close> of the
  exception the handler caught. \<open>IntegrityError\<close> is what the storage raises on a UNIQUE
  constraint, with the name of the column.
\<close>

datatype exn = HTTPException nat detail | IntegrityError string
and detail = Text string | Str exn

type_synonym 'a result = "exn + 'a"

subsection \<open>Storage: inserts and the session\<close>

text \<open>
  An INTEGER PRIMARY KEY of SQLite without AUTOINCREMENT gets the largest rowid in the
  table plus one (one in an empty table), so the id of a deleted last row is used again.
\<close>

definition next_id :: "nat list \<Rightarrow> nat" where
  "next_id ids = Suc (fold max ids 0)"

definition insert_client :: "database \<Rightarrow> string \<Rightarrow> (nat \<times> database) result" where
  "insert_client db n =
     (if n \<in> set (map Client_name (clients db)) then Inl (IntegrityError ''clients.name'')
      else let i = next_id (map Client_id (clients db))
           in Inr (i, db\<lparr>clients := clients db @ [\<lparr>Client_id = i, Client_name = n\<rparr>]\<rparr>))"

definition insert_computer ::
  "database \<Rightarrow> string \<times> val \<times> val \<times> nat \<Rightarrow> (nat \<times> database) result" where
  "insert_computer db c =
     (case c of (ip, lat, host, cid) \<Rightarrow>
        if ip \<in> set (map ip_address (computers db))
        then Inl (IntegrityError ''computers.ip_address'')
        else let i = next_id (map Computer_id (computers db))
             in Inr (i, db\<lparr>computers := computers db @
                  [\<lparr>Computer_id = i, ip_address = ip, latency = lat, hostname = host,
                    client_id = cid\<rparr>]\<rparr>))"

definition insert_port :: "database \<Rightarrow> string \<times> val \<times> nat \<Rightarrow> database" where
  "insert_port db p =
     (case p of (port, service, cid) \<Rightarrow>
        db\<lparr>ports := ports db @
          [\<lparr>Port_id = next_id (map Port_id (ports db)), port_number = port,
            service_name = service, computer_id = cid\<rparr>]\<rparr>)"

text \<open>
  The session is made with \<open>autoflush=False\<close>: a query reads the rows of the database,
  and an object given to \<open>session.add\<close> is not among them until the next flush.
  An attribute assigned on a loaded row is kept on that object (one object per row) and
  written by the flush; no query of the service filters on such an attribute, so
  \<open>persistent\<close> holds the rows with these assignments made. The flush writes the new
  computers before the new ports, each in the order of \<open>session.add\<close>.
\<close>

record session =
  persistent :: database
  new_computers :: "(string \<times> val \<times> val \<times> nat) list"
  new_ports :: "(string \<times> val \<times> nat) list"

fun insert_computers :: "database \<Rightarrow> (string \<times> val \<times> val \<times> nat) list \<Rightarrow> database result" where
  "insert_computers db [] = Inr db"
| "insert_computers db (c # cs) =
     (case insert_computer db c of
        Inl e \<Rightarrow> Inl e
      | Inr (i, db') \<Rightarrow> insert_computers db' cs)"

definition commit :: "session \<Rightarrow> database result" where
  "commit s =
     (case insert_computers (persistent s) (new_computers s) of
        Inl e \<Rightarrow> Inl e
      | Inr db \<Rightarrow> Inr (fold (\<lambda>p d. insert_port d p) (new_ports s) db))"

text \<open>
  Every handler runs \<open>try: ... except Exception as e: session.rollback(); raise
  HTTPException(status_code=500, detail=str(e))\<close>. \<open>HTTPException\<close> is an \<open>Exception\<close>,
  so the 400 and 404 raised inside the \<open>try\<close> are caught too: what leaves the handler is
  always a 500 whose detail is the text of the caught exception, and the database is
  the one before the call.
\<close>

definition transaction :: "database \<Rightarrow> database result \<Rightarrow> string \<Rightarrow> string result \<times> database" where
  "transaction db r msg =
     (case r of
        Inl e \<Rightarrow> (Inl (HTTPException 500 (Str e)), db)
      | Inr db' \<Rightarrow> (Inr msg, db'))"

definition quoted :: "string \<Rightarrow> string" where
  "quoted n = CHR 0x27 # n @ [CHR 0x27]"

subsection \<open>create_clients\<close>

text \<open>
  The client and each computer are flushed as soon as they are added, which gives
  \<open>client.id\<close> and \<open>computer.id\<close>. A port is only added; the next flush writes it. The
  ports table has no constraint and \<open>create_clients\<close> never reads it, so the rows and
  their ids are those of writing each port where it is added.
\<close>

fun create_ports :: "database \<Rightarrow> nat \<Rightarrow> (string, val) dict \<Rightarrow> database" where
  "create_ports db cid [] = db"
| "create_ports db cid ((port, service) # rest) =
     create_ports (insert_port db (port, service, cid)) cid rest"

fun create_computers :: "database \<Rightarrow> nat \<Rightarrow> (string, computer_data) dict \<Rightarrow> database result" where
  "create_computers db cid [] = Inr db"
| "create_computers db cid ((ip, cd) # rest) =
     (case insert_computer db
             (ip, dict_get (key_latency cd) None, dict_get (key_hostname cd) None, cid) of
        Inl e \<Rightarrow> Inl e
      | Inr (i, db') \<Rightarrow>
          create_computers (create_ports db' i (dict_get (key_ports cd) [])) cid rest)"

definition invalid_data :: exn where
  "invalid_data = HTTPException 400 (Text ''Invalid data format'')"

definition already_exists :: "string \<Rightarrow> exn" where
  "already_exists n = HTTPException 400 (Text (''Client '' @ quoted n @ '' already exists''))"

text \<open>
  One round of the loop over \<open>data\<close>. \<open>not client_name\<close> holds for a missing key, for
  null and for the empty string; \<open>not computers\<close> for a missing key, for null and for
  the empty dict.
\<close>

definition create_entry :: "database \<Rightarrow> client_data \<Rightarrow> database result" where
  "create_entry db e =
     (case key_client e of
        None \<Rightarrow> Inl invalid_data
      | Some n \<Rightarrow>
          (case key_computers e of
             None \<Rightarrow> Inl invalid_data
           | Some cs \<Rightarrow>
               if n = [] \<or> cs = [] then Inl invalid_data
               else
                 (case find (\<lambda>c. Client_name c = n) (clients db) of
                    Some existing_client \<Rightarrow> Inl (already_exists n)
                  | None \<Rightarrow>
                      (case insert_client db n of
                         Inl x \<Rightarrow> Inl x
                       | Inr (i, db1) \<Rightarrow> create_computers db1 i cs))))"

text \<open>
  \<open>valid_format\<close> is the test that lets an entry past the first \<open>raise\<close> of the loop:
  \<open>not client_name or not computers\<close> is false. \<open>entry_ips\<close> are the addresses of an
  entry, in the order of its \<open>computers\<close> dict.
\<close>

definition valid_format :: "client_data \<Rightarrow> bool" where
  "valid_format e \<longleftrightarrow> \<not> (dict_get (key_client e) [] = [] \<or> dict_get (key_computers e) [] = [])"

definition entry_ips :: "client_data \<Rightarrow> string list" where
  "entry_ips e = map fst (dict_get (key_computers e) [])"

fun create_loop :: "database \<Rightarrow> client_data list \<Rightarrow> database result" where
  "create_loop db [] = Inr db"
| "create_loop db (e # rest) =
     (case create_entry db e of
        Inl x \<Rightarrow> Inl x
      | Inr db' \<Rightarrow> create_loop db' rest)"

definition create_clients :: "database \<Rightarrow> client_data list \<Rightarrow> string result \<times> database" where
  "create_clients db data =
     transaction db (create_loop db data) ''Clients and computers created successfully''"

subsection \<open>get_all_clients\<close>

record computer_tree =
  out_ip_address :: string
  out_latency :: val
  out_hostname :: val
  out_ports :: "(string, val) dict"

record client_tree =
  out_client :: string
  out_computers :: "computer_tree list"

datatype listing = Message string | Trees "client_tree list"

text \<open>
  \<open>client.computers\<close> and \<open>computer.ports\<close> are the rows that carry the owner's id. The
  dict comprehension over the ports binds each port number in turn: a number bound
  before keeps its place and takes the later service.
\<close>

definition ports_dict :: "Port list \<Rightarrow> (string, val) dict" where
  "ports_dict ps = foldl (\<lambda>d p. AList.update (port_number p) (service_name p) d) [] ps"

definition computer_view :: "database \<Rightarrow> Computer \<Rightarrow> computer_tree" where
  "computer_view db c =
     \<lparr>out_ip_address = ip_address c, out_latency = latency c, out_hostname = hostname c,
      out_ports = ports_dict (filter (\<lambda>p. computer_id p = Computer_id c) (ports db))\<rparr>"

definition client_view :: "database \<Rightarrow> Client \<Rightarrow> client_tree" where
  "client_view db c =
     \<lparr>out_client = Client_name c,
      out_computers =
        map (computer_view db) (filter (\<lambda>r. client_id r = Client_id c) (computers db))\<rparr>"

definition result_trees :: "database \<Rightarrow> client_tree list" where
  "result_trees db = map (client_view db) (clients db)"

definition get_all_clients :: "database \<Rightarrow> listing" where
  "get_all_clients db =
     (if clients db = [] then Message ''No clients found'' else Trees (result_trees db))"

subsection \<open>update_client\<close>

definition set_computer :: "session \<Rightarrow> nat \<Rightarrow> val \<Rightarrow> val \<Rightarrow> session" where
  "set_computer s i lat host =
     s\<lparr>persistent := (persistent s)\<lparr>computers :=
          map (\<lambda>c. if Computer_id c = i then c\<lparr>latency := lat, hostname := host\<rparr> else c)
              (computers (persistent s))\<rparr>\<rparr>"

definition set_service_name :: "session \<Rightarrow> nat \<Rightarrow> val \<Rightarrow> session" where
  "set_service_name s i service =
     s\<lparr>persistent := (persistent s)\<lparr>ports :=
          map (\<lambda>p. if Port_id p = i then p\<lparr>service_name := service\<rparr> else p)
              (ports (persistent s))\<rparr>\<rparr>"

definition update_port :: "session \<Rightarrow> nat \<Rightarrow> string \<times> val \<Rightarrow> session" where
  "update_port s cid item =
     (case item of (port, service) \<Rightarrow>
        (case find (\<lambda>p. computer_id p = cid \<and> port_number p = port) (ports (persistent s)) of
           Some port_entry \<Rightarrow> set_service_name s (Port_id port_entry) service
         | None \<Rightarrow> s\<lparr>new_ports := new_ports s @ [(port, service, cid)]\<rparr>))"

fun update_ports :: "session \<Rightarrow> nat \<Rightarrow> (string, val) dict \<Rightarrow> session" where
  "update_ports s cid [] = s"
| "update_ports s cid (item # rest) = update_ports (update_port s cid item) cid rest"

definition update_computer :: "session \<Rightarrow> nat \<Rightarrow> string \<times> computer_data \<Rightarrow> session" where
  "update_computer s cl item =
     (case item of (ip, cd) \<Rightarrow>
        (case find (\<lambda>c. ip_address c = ip \<and> client_id c = cl) (computers (persistent s)) of
           Some computer \<Rightarrow>
             update_ports
               (set_computer s (Computer_id computer)
                  (dict_get (key_latency cd) (latency computer))
                  (dict_get (key_hostname cd) (hostname computer)))
               (Computer_id computer) (dict_get (key_ports cd) [])
         | None \<Rightarrow>
             s\<lparr>new_computers := new_computers s @
                 [(ip, dict_get (key_latency cd) None, dict_get (key_hostname cd) None, cl)]\<rparr>))"

fun update_computers :: "session \<Rightarrow> nat \<Rightarrow> (string, computer_data) dict \<Rightarrow> session" where
  "update_computers s cl [] = s"
| "update_computers s cl (item # rest) = update_computers (update_computer s cl item) cl rest"

definition update_client :: "database \<Rightarrow> string \<Rightarrow> update_data \<Rightarrow> string result \<times> database" where
  "update_client db n data =
     transaction db
       (case find (\<lambda>c. Client_name c = n) (clients db) of
          None \<Rightarrow> Inl (HTTPException 404 (Text ''Client not found''))
        | Some client \<Rightarrow>
            commit (update_computers \<lparr>persistent = db, new_computers = [], new_ports = []\<rparr>
                      (Client_id client) (dict_get (upd_computers data) [])))
       (''Client '' @ quoted n @ '' updated successfully'')"

subsection \<open>delete_client\<close>

text \<open>
  \<open>session.delete(client)\<close> follows the two \<open>cascade="all, delete"\<close> relationships: it
  loads the client's computers and their ports and deletes each loaded row by its id.
\<close>

definition delete_cascade :: "database \<Rightarrow> Client \<Rightarrow> database" where
  "delete_cascade db client =
     (let cs = filter (\<lambda>r. client_id r = Client_id client) (computers db);
          ps = filter (\<lambda>p. computer_id p \<in> set (map Computer_id cs)) (ports db)
      in \<lparr>clients = filter (\<lambda>c. Client_id c \<noteq> Client_id client) (clients db),
          computers = filter (\<lambda>r. Computer_id r \<notin> set (map Computer_id cs)) (computers db),
          ports = filter (\<lambda>p. Port_id p \<notin> set (map Port_id ps)) (ports db)\<rparr>)"

definition delete_client :: "database \<Rightarrow> string \<Rightarrow> string result \<times> database" where
  "delete_client db n =
     transaction db
       (case find (\<lambda>c. Client_name c = n) (clients db) of
          None \<Rightarrow> Inl (HTTPException 404 (Text ''Client not found''))
        | Some client \<Rightarrow> Inr (delete_cascade db client))
       (''Client '' @ quoted n @ '' deleted successfully'')"

subsection \<open>The requests of a run\<close>

text \<open>The service handles one request after the other; a failed request leaves the
  database as it was.\<close>

datatype request =
  Create "client_data list"
| Update string update_data
| Delete string

fun handle :: "database \<Rightarrow> request \<Rightarrow> database" where
  "handle db (Create data) = snd (create_clients db data)"
| "handle db (Update n data) = snd (update_client db n data)"
| "handle db (Delete n) = snd (delete_client db n)"

definition serve :: "database \<Rightarrow> request list \<Rightarrow> database" where
  "serve db rs = foldl handle db rs"

text \<open>Every dict of a request body has distinct keys.\<close>

definition computers_ok :: "(string, computer_data) dict \<Rightarrow> bool" where
  "computers_ok d \<longleftrightarrow> dict_ok d \<and> (\<forall>item\<in>set d. dict_ok (dict_get (key_ports (snd item)) []))"

definition client_data_ok :: "client_data \<Rightarrow> bool" where
  "client_data_ok e \<longleftrightarrow> computers_ok (dict_get (key_computers e) [])"

fun request_ok :: "request \<Rightarrow> bool" where
  "request_ok (Create data) = (\<forall>e\<in>set data. client_data_ok e)"
| "request_ok (Update n data) = computers_ok (dict_get (upd_computers data) [])"
| "request_ok (Delete n) = True"

subsection \<open>Constraints of the schema and ownership\<close>

text \<open>
  \<open>keys_ok\<close> is what the schema declares: the three primary keys, and \<open>unique=True\<close> on
  \<open>Client.name\<close> and \<open>Computer.ip_address\<close>. \<open>owned\<close> says that no row is an orphan.
  \<open>port_unique\<close> is not declared by the schema: one row per port number of a computer.
\<close>

definition keys_ok :: "database \<Rightarrow> bool" where
  "keys_ok db \<longleftrightarrow>
     distinct (map Client_id (clients db)) \<and> distinct (map Client_name (clients db)) \<and>
     distinct (map Computer_id (computers db)) \<and> distinct (map ip_address (computers db)) \<and>
     distinct (map Port_id (ports db))"

definition owned :: "database \<Rightarrow> bool" where
  "owned db \<longleftrightarrow>
     (\<forall>r\<in>set (computers db). client_id r \<in> set (map Client_id (clients db))) \<and>
     (\<forall>p\<in>set (ports db). computer_id p \<in> set (map Computer_id (computers db)))"

definition port_key :: "Port \<Rightarrow> nat \<times> string" where
  "port_key p = (computer_id p, port_number p)"

definition port_unique :: "database \<Rightarrow> bool" where
  "port_unique db \<longleftrightarrow> distinct (map port_key (ports db))"

definition inv_db :: "database \<Rightarrow> bool" where
  "inv_db db \<longleftrightarrow> keys_ok db \<and> owned db \<and> port_unique db"

subsection \<open>A session before its commit\<close>

text \<open>
  \<open>session_ok s cl\<close> holds while \<open>update_client\<close> works on the client with id \<open>cl\<close>:
  the rows satisfy \<open>inv_db\<close>, every new computer is for that client, and the new ports
  are for stored computers, one per port number, none of them stored already.
  \<open>untouched s ips\<close>: no new port belongs to a computer with an address in \<open>ips\<close>.
\<close>

definition pending_key :: "string \<times> val \<times> nat \<Rightarrow> nat \<times> string" where
  "pending_key q = (case q of (port, service, cid) \<Rightarrow> (cid, port))"

definition session_ok :: "session \<Rightarrow> nat \<Rightarrow> bool" where
  "session_ok s cl \<longleftrightarrow>
     inv_db (persistent s) \<and> cl \<in> Client_id ` set (clients (persistent s)) \<and>
     (\<forall>c\<in>set (new_computers s). snd (snd (snd c)) = cl) \<and>
     distinct (map pending_key (new_ports s)) \<and>
     (\<forall>q\<in>set (new_ports s).
        pending_key q \<notin> port_key ` set (ports (persistent s)) \<and>
        fst (pending_key q) \<in> Computer_id ` set (computers (persistent s)))"

definition untouched :: "session \<Rightarrow> string set \<Rightarrow> bool" where
  "untouched s ips \<longleftrightarrow>
     (\<forall>r\<in>set (computers (persistent s)).
        Computer_id r \<in> fst ` pending_key ` set (new_ports s) \<longrightarrow> ip_address r \<notin> ips)"

subsection \<open>The tree of a request entry\<close>

text \<open>
  The listing has its own shape: the computers of a client are a list, each with its
  \<open>ip_address\<close>, where the request has a dict keyed by the address. \<open>tree_of_entry\<close> is
  an entry of a \<open>create_clients\<close> body in the shape of the listing: an attribute the entry
  does not give is null, a ports dict it does not give is empty.
\<close>

definition tree_of_computer :: "string \<times> computer_data \<Rightarrow> computer_tree" where
  "tree_of_computer item =
     (case item of (ip, cd) \<Rightarrow>
        \<lparr>out_ip_address = ip, out_latency = dict_get (key_latency cd) None,
         out_hostname = dict_get (key_hostname cd) None,
         out_ports = dict_get (key_ports cd) []\<rparr>)"

definition tree_of_entry :: "client_data \<Rightarrow> client_tree" where
  "tree_of_entry e =
     \<lparr>out_client = dict_get (key_client e) [],
      out_computers = map tree_of_computer (dict_get (key_computers e) [])\<rparr>"

subsection \<open>Example data\<close>

definition acme_db :: database where
  "acme_db =
     \<lparr>clients = [\<lparr>Client_id = 1, Client_name = ''acme''\<rparr>],
      computers = [\<lparr>Computer_id = 1, ip_address = ''10.0.0.1'', latency = Some ''2ms'',
                    hostname = Some ''web1'', client_id = 1\<rparr>],
      ports = [\<lparr>Port_id = 1, port_number = ''80'', service_name = Some ''http'',
                 computer_id = 1\<rparr>,
               \<lparr>Port_id = 2, port_number = ''443'', service_name = Some ''https'',
                 computer_id = 1\<rparr>]\<rparr>"

definition acme_entry :: client_data where
  "acme_entry =
     \<lparr>key_client = Some ''acme'',
      key_computers = Some [(''10.0.0.1'',
        \<lparr>key_latency = Some (Some ''2ms''), key_hostname = Some (Some ''web1''),
         key_ports = Some [(''80'', Some ''http''), (''443'', Some ''https'')]\<rparr>)]\<rparr>"

definition globex_entry :: client_data where
  "globex_entry =
     \<lparr>key_client = Some ''globex'',
      key_computers = Some [(''10.0.0.2'',
        \<lparr>key_latency = Some (Some ''1ms''), key_hostname = Some (Some ''db1''),
         key_ports = Some [(''22'', Some ''ssh'')]\<rparr>)]\<rparr>"

definition acme_globex_db :: database where
  "acme_globex_db =
     \<lparr>clients = [\<lparr>Client_id = 1, Client_name = ''acme''\<rparr>,
                 \<lparr>Client_id = 2, Client_name = ''globex''\<rparr>],
      computers = [\<lparr>Computer_id = 1, ip_address = ''10.0.0.1'', latency = Some ''2ms'',
                    hostname = Some ''web1'', client_id = 1\<rparr>,
                   \<lparr>Computer_id = 2, ip_address = ''10.0.0.2'', latency = Some ''1ms'',
                    hostname = Some ''db1'', client_id = 2\<rparr>],
      ports = [\<lparr>Port_id = 1, port_number = ''80'', service_name = Some ''http'',
                 computer_id = 1\<rparr>,
               \<lparr>Port_id = 2, port_number = ''443'', service_name = Some ''https'',
                 computer_id = 1\<rparr>,
               \<lparr>Port_id = 3, port_number = ''22'', service_name = Some ''ssh'',
                 computer_id = 2\<rparr>]\<rparr>"

definition bare_entry :: client_data where
  "bare_entry = \<lparr>key_client = Some ''acme'', key_computers = Some []\<rparr>"

definition clash_entry :: client_data where
  "clash_entry =
     \<lparr>key_client = Some ''globex'',
      key_computers = Some [(''10.0.0.1'',
        \<lparr>key_latency = Some (Some ''9ms''), key_hostname = None, key_ports = None\<rparr>)]\<rparr>"

definition clash_patch :: update_data where
  "clash_patch =
     \<lparr>upd_computers = Some [(''10.0.0.1'',
        \<lparr>key_latency = Some (Some ''9ms''), key_hostname = None, key_ports = None\<rparr>)]\<rparr>"

definition port_patch :: update_data where
  "port_patch =
     \<lparr>upd_computers = Some [(''10.0.0.1'',
        \<lparr>key_latency = None, key_hostname = None,
         key_ports = Some [(''80'', Some ''www''), (''22'', Some ''ssh'')]\<rparr>)]\<rparr>"

definition new_host_patch :: update_data where
  "new_host_patch =
     \<lparr>upd_computers = Some [(''10.0.0.2'',
        \<lparr>key_latency = Some (Some ''1ms''), key_hostname = Some (Some ''db1''),
         key_ports = Some [(''22'', Some ''ssh'')]\<rparr>)]\<rparr>"

section \<open>Basic facts\<close>

subsection \<open>Fresh ids\<close>

lemma fold_max_upper: "a \<le> fold max xs (a::nat)"
proof (induction xs arbitrary: a)
  case Nil
  show ?case by simp
next
  case (Cons x xs)
  have "max x a \<le> fold max xs (max x a)" by (rule Cons.IH)
  then show ?case by simp
qed

lemma fold_max_mem: "x \<in> set xs \<Longrightarrow> x \<le> fold max xs (a::nat)"
proof (induction xs arbitrary: a)
  case Nil
  then show ?case by simp
next
  case (Cons y ys)
  show ?case
  proof (cases "x = y")
    case True
    have "max y a \<le> fold max ys (max y a)" by (rule fold_max_upper)
    then show ?thesis using True by simp
  next
    case False
    then have "x \<in> set ys" using Cons.prems by simp
    then show ?thesis using Cons.IH by simp
  qed
qed

lemma next_id_fresh: "next_id ids \<notin> set ids"
proof
  assume "next_id ids \<in> set ids"
  then have "next_id ids \<le> fold max ids 0" by (rule fold_max_mem)
  then show False by (simp add: next_id_def)
qed

lemma next_id_fresh_image: "next_id (map f xs) \<notin> f ` set xs"
  using next_id_fresh [of "map f xs"] by simp

subsection \<open>Looking a client up by name\<close>

lemma find_name_Some:
  "n \<in> set (map Client_name (clients db)) \<Longrightarrow>
   \<exists>client. find (\<lambda>c. Client_name c = n) (clients db) = Some client \<and>
     client \<in> set (clients db) \<and> Client_name client = n"
  by (cases "find (\<lambda>c. Client_name c = n) (clients db)")
     (auto simp: find_None_iff find_Some_iff)

lemma find_name_None:
  "n \<notin> set (map Client_name (clients db)) \<Longrightarrow>
   find (\<lambda>c. Client_name c = n) (clients db) = None"
  by (auto simp: find_None_iff)

subsection \<open>The dict of a computer's ports\<close>

lemma dom_ports_dict_aux:
  "fst ` set (foldl (\<lambda>d p. AList.update (port_number p) (service_name p) d) acc ps) =
   fst ` set acc \<union> port_number ` set ps"
  by (induction ps arbitrary: acc) (auto simp: AList.dom_update)

lemma dom_ports_dict: "fst ` set (ports_dict ps) = port_number ` set ps"
  by (simp add: ports_dict_def dom_ports_dict_aux)

lemma update_fresh: "k \<notin> fst ` set al \<Longrightarrow> AList.update k v al = al @ [(k, v)]"
  by (induction al) auto

lemma ports_dict_aux:
  "distinct (map port_number ps) \<Longrightarrow> port_number ` set ps \<inter> fst ` set acc = {} \<Longrightarrow>
   foldl (\<lambda>d p. AList.update (port_number p) (service_name p) d) acc ps =
   acc @ map (\<lambda>p. (port_number p, service_name p)) ps"
proof (induction ps arbitrary: acc)
  case Nil
  show ?case by simp
next
  case (Cons p ps)
  have fresh: "port_number p \<notin> fst ` set acc" using Cons.prems(2) by auto
  have "port_number ` set ps \<inter> fst ` set (acc @ [(port_number p, service_name p)]) = {}"
    using Cons.prems by auto
  with Cons.IH [of "acc @ [(port_number p, service_name p)]"] Cons.prems(1)
  show ?case by (simp add: update_fresh [OF fresh])
qed

lemma ports_dict_distinct:
  "distinct (map port_number ps) \<Longrightarrow>
   ports_dict ps = map (\<lambda>p. (port_number p, service_name p)) ps"
  using ports_dict_aux [of ps "[]"] by (simp add: ports_dict_def)

subsection \<open>Rows found by a key\<close>

lemma key_eq_iff:
  "distinct (map f xs) \<Longrightarrow> x \<in> set xs \<Longrightarrow> y \<in> set xs \<Longrightarrow> f x = f y \<longleftrightarrow> x = y"
  by (auto simp: distinct_map dest: inj_onD)

lemma filter_by_key:
  assumes "distinct (map f xs)"
  shows "filter (\<lambda>x. f x \<notin> f ` {y \<in> set xs. P y}) xs = filter (\<lambda>x. \<not> P x) xs"
proof (rule filter_cong [OF refl])
  fix x
  assume x: "x \<in> set xs"
  show "(f x \<notin> f ` {y \<in> set xs. P y}) = (\<not> P x)"
  proof (cases "P x")
    case True
    then show ?thesis using x by auto
  next
    case False
    have "f x \<notin> f ` {y \<in> set xs. P y}"
    proof
      assume "f x \<in> f ` {y \<in> set xs. P y}"
      then obtain y where y: "y \<in> set xs" "P y" "f x = f y" by auto
      with key_eq_iff [OF assms x y(1)] have "x = y" by simp
      with y False show False by simp
    qed
    with False show ?thesis by simp
  qed
qed

lemma filter_filter_absorb:
  "(\<And>x. x \<in> set xs \<Longrightarrow> P x \<Longrightarrow> Q x) \<Longrightarrow> filter P (filter Q xs) = filter P xs"
  by (induction xs) auto

lemma find_unique:
  "distinct (map f xs) \<Longrightarrow> x \<in> set xs \<Longrightarrow> Q x \<Longrightarrow>
   find (\<lambda>y. f y = f x \<and> Q y) xs = Some x"
proof (induction xs)
  case Nil
  then show ?case by simp
next
  case (Cons a xs)
  show ?case
  proof (cases "a = x")
    case True
    then show ?thesis using Cons.prems by simp
  next
    case False
    then have x: "x \<in> set xs" using Cons.prems by simp
    then have "f x \<in> f ` set xs" by simp
    then have "f a \<noteq> f x" using Cons.prems(1) by auto
    then show ?thesis using Cons.IH Cons.prems x by simp
  qed
qed

lemma find_client:
  assumes "keys_ok db" "client \<in> set (clients db)"
  shows "find (\<lambda>c. Client_name c = Client_name client) (clients db) = Some client"
proof -
  have "distinct (map Client_name (clients db))" using assms(1) by (simp add: keys_ok_def)
  from find_unique [OF this assms(2), of "\<lambda>c. True"] show ?thesis by simp
qed

lemma map_if_frame:
  "(\<And>c. f (g c) = f c) \<Longrightarrow> map f (map (\<lambda>c. if P c then g c else c) xs) = map f xs"
  by (induction xs) simp_all

lemma map_pair_cong:
  "map f xs = map f ys \<Longrightarrow> map g xs = map g ys \<Longrightarrow>
   map (\<lambda>r. (f r, g r)) xs = map (\<lambda>r. (f r, g r)) ys"
proof (induction xs arbitrary: ys)
  case Nil
  then show ?case by simp
next
  case (Cons a xs)
  from Cons.prems(1) obtain b zs where ys: "ys = b # zs" by (cases ys) simp_all
  from Cons.prems have h: "f a = f b" "g a = g b" and t: "map f xs = map f zs" "map g xs = map g zs"
    unfolding ys by simp_all
  from Cons.IH [OF t] h show ?case unfolding ys by simp
qed

lemma distinct_map_pair: "distinct (map g xs) \<Longrightarrow> distinct (map (\<lambda>x. (f x, g x)) xs)"
  by (induction xs) auto

lemma inv_empty: "inv_db empty_db"
  by (simp add: inv_db_def keys_ok_def owned_def port_unique_def empty_db_def)

section \<open>What create_clients writes\<close>

lemma insert_port_frame:
  "clients (insert_port db p) = clients db"
  "computers (insert_port db p) = computers db"
  by (simp_all add: insert_port_def split: prod.splits)

lemma create_ports_clients: "clients (create_ports db cid d) = clients db"
  by (induction db cid d rule: create_ports.induct) (simp_all add: insert_port_frame)

lemma create_ports_computers: "computers (create_ports db cid d) = computers db"
  by (induction db cid d rule: create_ports.induct) (simp_all add: insert_port_frame)

lemma create_ports_shape:
  "\<exists>ps. ports (create_ports db cid d) = ports db @ ps \<and>
        map (\<lambda>p. (port_number p, service_name p)) ps = d \<and>
        (\<forall>p\<in>set ps. computer_id p = cid)"
proof (induction db cid d rule: create_ports.induct)
  case (1 db cid)
  show ?case by simp
next
  case (2 db cid port service rest)
  then obtain ps where
    ps: "ports (create_ports (insert_port db (port, service, cid)) cid rest) =
           ports (insert_port db (port, service, cid)) @ ps"
        "map (\<lambda>p. (port_number p, service_name p)) ps = rest"
        "\<forall>p\<in>set ps. computer_id p = cid"
    by blast
  let ?row = "\<lparr>Port_id = next_id (map Port_id (ports db)), port_number = port,
                service_name = service, computer_id = cid\<rparr>"
  have "ports (create_ports db cid ((port, service) # rest)) = ports db @ (?row # ps) \<and>
        map (\<lambda>p. (port_number p, service_name p)) (?row # ps) = (port, service) # rest \<and>
        (\<forall>p\<in>set (?row # ps). computer_id p = cid)"
    using ps by (simp add: insert_port_def)
  then show ?case by (rule exI)
qed

lemma create_ports_port_ids:
  "distinct (map Port_id (ports db)) \<Longrightarrow>
   distinct (map Port_id (ports (create_ports db cid d)))"
proof (induction db cid d rule: create_ports.induct)
  case (1 db cid)
  then show ?case by simp
next
  case (2 db cid port service rest)
  have "distinct (map Port_id (ports (insert_port db (port, service, cid))))"
    using "2.prems" by (simp add: insert_port_def next_id_fresh_image)
  then show ?case using "2.IH" by simp
qed

lemma insert_computer_Inr:
  assumes "insert_computer db (ip, l, h, cid) = Inr (i, db1)"
  shows "ip \<notin> ip_address ` set (computers db)"
    and "i = next_id (map Computer_id (computers db))"
    and "db1 = db\<lparr>computers := computers db @
           [\<lparr>Computer_id = i, ip_address = ip, latency = l, hostname = h, client_id = cid\<rparr>]\<rparr>"
  using assms by (auto simp: insert_computer_def Let_def split: if_splits)

lemma insert_computer_Inl:
  "insert_computer db c = Inl e \<Longrightarrow> e = IntegrityError ''computers.ip_address''"
  by (auto simp: insert_computer_def Let_def split: if_splits prod.splits)

lemma insert_computer_ips:
  "insert_computer db c = Inr (i, db1) \<Longrightarrow>
   map ip_address (computers db1) = map ip_address (computers db) @ [fst c] \<and>
   fst c \<notin> ip_address ` set (computers db)"
  by (auto simp: insert_computer_def Let_def split: if_splits prod.splits)

lemma insert_client_Inr:
  assumes "insert_client db n = Inr (i, db1)"
  shows "n \<notin> Client_name ` set (clients db)"
    and "i = next_id (map Client_id (clients db))"
    and "db1 = db\<lparr>clients := clients db @ [\<lparr>Client_id = i, Client_name = n\<rparr>]\<rparr>"
  using assms by (auto simp: insert_client_def Let_def split: if_splits)

text \<open>One computer and its ports, written into a database that satisfies \<open>inv_db\<close>.\<close>

lemma add_computer_inv:
  assumes inv: "inv_db db" and cid: "cid \<in> Client_id ` set (clients db)"
    and pd: "dict_ok pd"
    and ins: "insert_computer db (ip, l, h, cid) = Inr (i, db1)"
  shows "inv_db (create_ports db1 i pd)"
    and "clients (create_ports db1 i pd) = clients db"
    and "computers (create_ports db1 i pd) = computers db @
           [\<lparr>Computer_id = i, ip_address = ip, latency = l, hostname = h, client_id = cid\<rparr>]"
    and "\<exists>ps1. ports (create_ports db1 i pd) = ports db @ ps1 \<and>
           map (\<lambda>p. (port_number p, service_name p)) ps1 = pd \<and>
           (\<forall>p\<in>set ps1. computer_id p = i)"
    and "i \<notin> Computer_id ` set (computers db)"
proof -
  let ?r = "\<lparr>Computer_id = i, ip_address = ip, latency = l, hostname = h, client_id = cid\<rparr>"
  let ?db2 = "create_ports db1 i pd"
  note I = insert_computer_Inr [OF ins]
  have db1: "db1 = db\<lparr>computers := computers db @ [?r]\<rparr>" by (rule I(3))
  show fresh: "i \<notin> Computer_id ` set (computers db)"
    unfolding I(2) by (rule next_id_fresh_image)
  obtain ps1 where ps1: "ports ?db2 = ports db1 @ ps1"
      "map (\<lambda>p. (port_number p, service_name p)) ps1 = pd"
      "\<forall>p\<in>set ps1. computer_id p = i"
    using create_ports_shape [of db1 i pd] by blast
  have po: "ports ?db2 = ports db @ ps1" using ps1(1) by (simp add: db1)
  show cl: "clients ?db2 = clients db" by (simp add: create_ports_clients db1)
  show co: "computers ?db2 = computers db @ [?r]" by (simp add: create_ports_computers db1)
  show "\<exists>ps1. ports ?db2 = ports db @ ps1 \<and>
           map (\<lambda>p. (port_number p, service_name p)) ps1 = pd \<and>
           (\<forall>p\<in>set ps1. computer_id p = i)"
    using po ps1(2,3) by blast
  have k0: "keys_ok db" and o0: "owned db" and u0: "port_unique db"
    using inv by (simp_all add: inv_db_def)
  have "distinct (map Port_id (ports db1))" using k0 by (simp add: keys_ok_def db1)
  then have pid: "distinct (map Port_id (ports ?db2))" by (rule create_ports_port_ids)
  have k: "keys_ok ?db2"
    using k0 fresh I(1) pid by (simp add: keys_ok_def cl co)
  have o: "owned ?db2"
    using o0 cid ps1(3) by (auto simp: owned_def cl co po)
  have "map fst (map (\<lambda>p. (port_number p, service_name p)) ps1) = map fst pd"
    by (simp only: ps1(2))
  then have pn: "map port_number ps1 = map fst pd" by (simp add: comp_def)
  have "distinct (map port_number ps1)" using pd by (simp add: pn dict_ok_def)
  then have d1: "distinct (map port_key ps1)"
    unfolding port_key_def by (rule distinct_map_pair)
  have d2: "port_key ` set (ports db) \<inter> port_key ` set ps1 = {}"
    using o0 fresh ps1(3) by (auto simp: owned_def port_key_def)
  have u: "port_unique ?db2"
    using u0 d1 d2 by (simp add: port_unique_def po)
  show "inv_db ?db2" using k o u by (simp add: inv_db_def)
qed

lemma create_computers_inv:
  assumes "create_computers db cid d = Inr db'" "inv_db db"
    "cid \<in> Client_id ` set (clients db)" "computers_ok d"
  shows "inv_db db' \<and> clients db' = clients db \<and>
     (\<exists>rs ps. computers db' = computers db @ rs \<and> ports db' = ports db @ ps \<and>
        (\<forall>r\<in>set rs. client_id r = cid) \<and>
        (\<forall>p\<in>set ps. computer_id p \<in> Computer_id ` set rs) \<and>
        map (computer_view db') rs = map tree_of_computer d)"
  using assms
proof (induction d arbitrary: db)
  case Nil
  then show ?case by simp
next
  case (Cons a rest)
  obtain ip cd where a: "a = (ip, cd)" by (cases a)
  let ?l = "dict_get (key_latency cd) None"
  let ?h = "dict_get (key_hostname cd) None"
  let ?pd = "dict_get (key_ports cd) []"
  from Cons.prems(1) a obtain i db1
    where ins: "insert_computer db (ip, ?l, ?h, cid) = Inr (i, db1)"
      and rec: "create_computers (create_ports db1 i ?pd) cid rest = Inr db'"
    by (auto split: sum.splits)
  have okd: "dict_ok ?pd" and okrest: "computers_ok rest"
    using Cons.prems(4) a by (auto simp: computers_ok_def dict_ok_def)
  note L = add_computer_inv [OF Cons.prems(2) Cons.prems(3) okd ins]
  let ?db2 = "create_ports db1 i ?pd"
  let ?r = "\<lparr>Computer_id = i, ip_address = ip, latency = ?l, hostname = ?h, client_id = cid\<rparr>"
  have cid2: "cid \<in> Client_id ` set (clients ?db2)" using L(2) Cons.prems(3) by simp
  from Cons.IH [OF rec L(1) cid2 okrest] obtain rs ps where
    IH: "inv_db db'" "clients db' = clients ?db2" "computers db' = computers ?db2 @ rs"
      "ports db' = ports ?db2 @ ps" "\<forall>r\<in>set rs. client_id r = cid"
      "\<forall>p\<in>set ps. computer_id p \<in> Computer_id ` set rs"
      "map (computer_view db') rs = map tree_of_computer rest"
    by blast
  from L(4) obtain ps1 where ps1: "ports ?db2 = ports db @ ps1"
      "map (\<lambda>p. (port_number p, service_name p)) ps1 = ?pd"
      "\<forall>p\<in>set ps1. computer_id p = i"
    by blast
  have comps: "computers db' = computers db @ (?r # rs)" using IH(3) L(3) by simp
  have prts: "ports db' = ports db @ (ps1 @ ps)" using IH(4) ps1(1) by simp
  have i_rs: "i \<notin> Computer_id ` set rs"
    using IH(1) by (auto simp: inv_db_def keys_ok_def comps)
  have old: "\<forall>p\<in>set (ports db). computer_id p \<noteq> i"
    using Cons.prems(2) L(5) by (auto simp: inv_db_def owned_def)
  have f1: "filter (\<lambda>p. computer_id p = i) (ports db) = []"
    using old by (auto simp: filter_empty_conv)
  have f2: "filter (\<lambda>p. computer_id p = i) ps1 = ps1"
    using ps1(3) by (simp add: filter_id_conv)
  have f3: "filter (\<lambda>p. computer_id p = i) ps = []"
    using IH(6) i_rs by (auto simp: filter_empty_conv)
  have "map fst (map (\<lambda>p. (port_number p, service_name p)) ps1) = map fst ?pd"
    by (simp only: ps1(2))
  then have pn: "map port_number ps1 = map fst ?pd" by (simp add: comp_def)
  have "distinct (map port_number ps1)" using okd by (simp add: pn dict_ok_def)
  then have pdict: "ports_dict ps1 = ?pd" using ps1(2) by (simp add: ports_dict_distinct)
  have view: "computer_view db' ?r = tree_of_computer (ip, cd)"
    by (simp add: computer_view_def tree_of_computer_def prts f1 f2 f3 pdict)
  have "map (computer_view db') (?r # rs) = map tree_of_computer (a # rest)"
    using view IH(7) a by simp
  moreover have "\<forall>r\<in>set (?r # rs). client_id r = cid" using IH(5) by simp
  moreover have "\<forall>p\<in>set (ps1 @ ps). computer_id p \<in> Computer_id ` set (?r # rs)"
    using IH(6) ps1(3) by auto
  moreover have "clients db' = clients db" using IH(2) L(2) by simp
  ultimately show ?case using IH(1) comps prts by blast
qed

text \<open>Rows appended for another client leave the tree of a client as it is.\<close>

lemma client_view_append:
  assumes "\<forall>r\<in>set rs. client_id r \<noteq> Client_id c"
    and "\<forall>r\<in>set (computers db). client_id r = Client_id c \<longrightarrow>
           (\<forall>p\<in>set ps. computer_id p \<noteq> Computer_id r)"
    and co: "computers db' = computers db @ rs" and po: "ports db' = ports db @ ps"
  shows "client_view db' c = client_view db c"
proof -
  let ?F = "filter (\<lambda>r. client_id r = Client_id c) (computers db)"
  have "filter (\<lambda>r. client_id r = Client_id c) rs = []"
    using assms(1) by (auto simp: filter_empty_conv)
  then have F: "filter (\<lambda>r. client_id r = Client_id c) (computers db') = ?F"
    by (simp add: co)
  have "computer_view db' r = computer_view db r" if "r \<in> set ?F" for r
  proof -
    have "\<forall>p\<in>set ps. computer_id p \<noteq> Computer_id r" using that assms(2) by auto
    then have "filter (\<lambda>p. computer_id p = Computer_id r) ps = []"
      by (auto simp: filter_empty_conv)
    then show ?thesis by (simp add: computer_view_def po)
  qed
  then have "map (computer_view db') ?F = map (computer_view db) ?F" by simp
  then show ?thesis by (simp add: client_view_def F)
qed

lemma create_entry_Inr:
  assumes "create_entry db e = Inr db'"
  shows "\<exists>n cs i db1. key_client e = Some n \<and> key_computers e = Some cs \<and> n \<noteq> [] \<and>
     cs \<noteq> [] \<and> find (\<lambda>c. Client_name c = n) (clients db) = None \<and>
     insert_client db n = Inr (i, db1) \<and> create_computers db1 i cs = Inr db'"
  using assms
  by (auto simp: create_entry_def split: option.splits if_splits sum.splits prod.splits)

lemma create_entry_inv:
  assumes ce: "create_entry db e = Inr db'" and inv: "inv_db db" and ok: "client_data_ok e"
  shows "inv_db db'" and "result_trees db' = result_trees db @ [tree_of_entry e]"
proof -
  from create_entry_Inr [OF ce] obtain n cs i db1 where
    n: "key_client e = Some n" and cs: "key_computers e = Some cs" and
    ic: "insert_client db n = Inr (i, db1)" and cc: "create_computers db1 i cs = Inr db'"
    by blast
  note I = insert_client_Inr [OF ic]
  let ?c = "\<lparr>Client_id = i, Client_name = n\<rparr>"
  have db1: "db1 = db\<lparr>clients := clients db @ [?c]\<rparr>" by (rule I(3))
  have fresh: "i \<notin> Client_id ` set (clients db)"
    unfolding I(2) by (rule next_id_fresh_image)
  have inv1: "inv_db db1"
    using inv fresh I(1)
    by (auto simp: inv_db_def keys_ok_def owned_def port_unique_def db1)
  have cid1: "i \<in> Client_id ` set (clients db1)" by (simp add: db1)
  have okcs: "computers_ok cs" using ok cs by (simp add: client_data_ok_def dict_get_def)
  from create_computers_inv [OF cc inv1 cid1 okcs] obtain rs ps where
    R: "inv_db db'" "clients db' = clients db1" "computers db' = computers db1 @ rs"
      "ports db' = ports db1 @ ps" "\<forall>r\<in>set rs. client_id r = i"
      "\<forall>p\<in>set ps. computer_id p \<in> Computer_id ` set rs"
      "map (computer_view db') rs = map tree_of_computer cs"
    by blast
  show "inv_db db'" by (rule R(1))
  have cl: "clients db' = clients db @ [?c]" using R(2) by (simp add: db1)
  have co: "computers db' = computers db @ rs" using R(3) by (simp add: db1)
  have po: "ports db' = ports db @ ps" using R(4) by (simp add: db1)
  have dids: "distinct (map Computer_id (computers db @ rs))"
    using R(1) by (simp add: inv_db_def keys_ok_def co)
  have old: "client_view db' c = client_view db c" if c: "c \<in> set (clients db)" for c
  proof (rule client_view_append [OF _ _ co po])
    have ne: "Client_id c \<noteq> i" using fresh c by auto
    show "\<forall>r\<in>set rs. client_id r \<noteq> Client_id c" using R(5) ne by auto
    show "\<forall>r\<in>set (computers db). client_id r = Client_id c \<longrightarrow>
            (\<forall>p\<in>set ps. computer_id p \<noteq> Computer_id r)"
      using dids R(6) by auto
  qed
  have g1: "filter (\<lambda>r. client_id r = i) (computers db) = []"
    using inv fresh by (auto simp: inv_db_def owned_def filter_empty_conv)
  have g2: "filter (\<lambda>r. client_id r = i) rs = rs"
    using R(5) by (simp add: filter_id_conv)
  have new: "client_view db' ?c = tree_of_entry e"
    by (simp add: client_view_def tree_of_entry_def co g1 g2 R(7) n cs dict_get_def)
  have "map (client_view db') (clients db) = map (client_view db) (clients db)"
    using old by simp
  then show "result_trees db' = result_trees db @ [tree_of_entry e]"
    using new by (simp add: result_trees_def cl)
qed

lemma create_loop_inv:
  assumes "create_loop db data = Inr db'" "inv_db db" "\<forall>e\<in>set data. client_data_ok e"
  shows "inv_db db' \<and> result_trees db' = result_trees db @ map tree_of_entry data"
  using assms
proof (induction data arbitrary: db)
  case Nil
  then show ?case by simp
next
  case (Cons e rest)
  from Cons.prems(1) obtain db1 where ce: "create_entry db e = Inr db1"
    and rec: "create_loop db1 rest = Inr db'"
    by (auto split: sum.splits)
  have ok: "client_data_ok e" and okrest: "\<forall>e\<in>set rest. client_data_ok e"
    using Cons.prems(3) by simp_all
  note E = create_entry_inv [OF ce Cons.prems(2) ok]
  from Cons.IH [OF rec E(1) okrest] E(2) show ?case by simp
qed

lemma create_clients_Inr:
  "create_clients db data = (Inr msg, db') \<longleftrightarrow>
   create_loop db data = Inr db' \<and> msg = ''Clients and computers created successfully''"
  by (auto simp: create_clients_def transaction_def split: sum.splits)

section \<open>get_all_clients\<close>

text \<open>
  Claim C5 says that list-all has no fault and returns the sequence of client trees, the
  empty sequence when there is no client. The handler has a branch of its own for that
  case: \<open>if not clients: return {"message": "No clients found"}\<close>. On the empty database
  the answer is this message, not the empty sequence.
\<close>

theorem list_all_empty_counterexample: "get_all_clients empty_db \<noteq> Trees []"
  by (simp add: get_all_clients_def empty_db_def)

text \<open>
  Claim C5 as the code has it: list-all always answers. Without clients the answer is the
  message \<open>No clients found\<close>; otherwise it is one tree per client, in the order of the
  table and under the client's name, no computer of a client is left out of its tree
  (address, latency and hostname as stored), and every port number of a computer is a
  key of its ports dict.
\<close>

theorem get_all_clients_total:
  "(clients db = [] \<longrightarrow> get_all_clients db = Message ''No clients found'') \<and>
   (clients db \<noteq> [] \<longrightarrow>
      get_all_clients db = Trees (result_trees db) \<and>
      map out_client (result_trees db) = map Client_name (clients db)) \<and>
   (\<forall>c\<in>set (clients db). \<forall>r\<in>set (computers db). client_id r = Client_id c \<longrightarrow>
      (\<exists>t\<in>set (result_trees db). out_client t = Client_name c \<and>
        (\<exists>u\<in>set (out_computers t).
           out_ip_address u = ip_address r \<and> out_latency u = latency r \<and>
           out_hostname u = hostname r \<and>
           (\<forall>p\<in>set (ports db). computer_id p = Computer_id r \<longrightarrow>
              port_number p \<in> fst ` set (out_ports u)))))"
proof (intro conjI impI ballI)
  show "get_all_clients db = Message ''No clients found''" if "clients db = []"
    using that by (simp add: get_all_clients_def)
  show "get_all_clients db = Trees (result_trees db)" if "clients db \<noteq> []"
    using that by (simp add: get_all_clients_def)
  show "map out_client (result_trees db) = map Client_name (clients db)"
    by (simp add: result_trees_def client_view_def)
next
  fix c r
  assume c: "c \<in> set (clients db)" and r: "r \<in> set (computers db)"
    and own: "client_id r = Client_id c"
  have t: "client_view db c \<in> set (result_trees db)"
    using c by (simp add: result_trees_def)
  have u: "computer_view db r \<in> set (out_computers (client_view db c))"
    using r own by (simp add: client_view_def)
  have p: "\<forall>p\<in>set (ports db). computer_id p = Computer_id r \<longrightarrow>
             port_number p \<in> fst ` set (out_ports (computer_view db r))"
    by (simp add: computer_view_def dom_ports_dict)
  have "out_client (client_view db c) = Client_name c" by (simp add: client_view_def)
  moreover have "out_ip_address (computer_view db r) = ip_address r \<and>
     out_latency (computer_view db r) = latency r \<and>
     out_hostname (computer_view db r) = hostname r"
    by (simp add: computer_view_def)
  ultimately show "\<exists>t\<in>set (result_trees db). out_client t = Client_name c \<and>
        (\<exists>u\<in>set (out_computers t).
           out_ip_address u = ip_address r \<and> out_latency u = latency r \<and>
           out_hostname u = hostname r \<and>
           (\<forall>p\<in>set (ports db). computer_id p = Computer_id r \<longrightarrow>
              port_number p \<in> fst ` set (out_ports u)))"
    using t u p by blast
qed

theorem get_all_clients_total_witness:
  "clients acme_db \<noteq> [] \<and> get_all_clients acme_db = Trees (result_trees acme_db) \<and>
   map out_client (result_trees acme_db) = [''acme''] \<and>
   (\<exists>t\<in>set (result_trees acme_db). out_client t = ''acme'' \<and>
      (\<exists>u\<in>set (out_computers t). out_ip_address u = ''10.0.0.1'' \<and>
         ''80'' \<in> fst ` set (out_ports u))) \<and>
   get_all_clients empty_db = Message ''No clients found''"
proof -
  let ?c = "\<lparr>Client_id = 1, Client_name = ''acme''\<rparr>"
  let ?r = "\<lparr>Computer_id = 1, ip_address = ''10.0.0.1'', latency = Some ''2ms'',
             hostname = Some ''web1'', client_id = 1\<rparr>"
  let ?p = "\<lparr>Port_id = 1, port_number = ''80'', service_name = Some ''http'',
             computer_id = 1\<rparr>"
  have c: "?c \<in> set (clients acme_db)" and r: "?r \<in> set (computers acme_db)"
    and p: "?p \<in> set (ports acme_db)"
    by (simp_all add: acme_db_def)
  have ne: "clients acme_db \<noteq> []" by (simp add: acme_db_def)
  have e: "clients empty_db = []" by (simp add: empty_db_def)
  note T = get_all_clients_total [of acme_db]
  from T ne have a: "get_all_clients acme_db = Trees (result_trees acme_db)"
    and b: "map out_client (result_trees acme_db) = map Client_name (clients acme_db)"
    by simp_all
  from T have every: "\<forall>c\<in>set (clients acme_db). \<forall>r\<in>set (computers acme_db).
      client_id r = Client_id c \<longrightarrow>
      (\<exists>t\<in>set (result_trees acme_db). out_client t = Client_name c \<and>
        (\<exists>u\<in>set (out_computers t).
           out_ip_address u = ip_address r \<and> out_latency u = latency r \<and>
           out_hostname u = hostname r \<and>
           (\<forall>p\<in>set (ports acme_db). computer_id p = Computer_id r \<longrightarrow>
              port_number p \<in> fst ` set (out_ports u))))"
    by (elim conjE)
  from bspec [OF bspec [OF every c] r]
  have "\<exists>t\<in>set (result_trees acme_db). out_client t = Client_name ?c \<and>
        (\<exists>u\<in>set (out_computers t).
           out_ip_address u = ip_address ?r \<and> out_latency u = latency ?r \<and>
           out_hostname u = hostname ?r \<and>
           (\<forall>p\<in>set (ports acme_db). computer_id p = Computer_id ?r \<longrightarrow>
              port_number p \<in> fst ` set (out_ports u)))"
    by simp
  then obtain t u where t: "t \<in> set (result_trees acme_db)" "out_client t = Client_name ?c"
    and u: "u \<in> set (out_computers t)" "out_ip_address u = ip_address ?r"
      "\<forall>p\<in>set (ports acme_db). computer_id p = Computer_id ?r \<longrightarrow>
              port_number p \<in> fst ` set (out_ports u)"
    by blast
  from bspec [OF u(3) p] have "port_number ?p \<in> fst ` set (out_ports u)" by simp
  with t u have d: "\<exists>t\<in>set (result_trees acme_db). out_client t = ''acme'' \<and>
      (\<exists>u\<in>set (out_computers t). out_ip_address u = ''10.0.0.1'' \<and>
         ''80'' \<in> fst ` set (out_ports u))"
    by auto
  from get_all_clients_total [of empty_db] e
  have f: "get_all_clients empty_db = Message ''No clients found''" by simp
  from b have b': "map out_client (result_trees acme_db) = [''acme'']"
    by (simp add: acme_db_def)
  show ?thesis using ne a b' d f by simp
qed

section \<open>create_clients followed by get_all_clients\<close>

text \<open>
  Claim C3 says that list-all right after an accepted bulk-create, from an empty or a
  disjoint database, returns a tree equal to the input. From a database that already
  holds the client acme, creating globex is accepted, and the listing that follows holds
  the tree of acme too: it is not the input.
\<close>

theorem list_after_create_counterexample:
  "fst (create_clients acme_db [globex_entry]) =
     Inr ''Clients and computers created successfully'' \<and>
   get_all_clients (snd (create_clients acme_db [globex_entry])) \<noteq>
     Trees (map tree_of_entry [globex_entry])"
  by (simp add: create_clients_def transaction_def create_entry_def insert_client_def
      insert_computer_def insert_port_def next_id_def dict_get_def acme_db_def
      globex_entry_def get_all_clients_def result_trees_def)

text \<open>
  Claim C3 as the code has it: after an accepted bulk-create, list-all returns the trees
  that were listed before the call followed by one tree for each entry of the input, in
  the order of the input and with every computer and every port of the entry. From the
  empty database that is the input itself. When the database and the input are both
  empty the answer is the message \<open>No clients found\<close>.
\<close>

theorem list_after_create:
  assumes "inv_db db" and "\<forall>e\<in>set data. client_data_ok e"
    and "create_clients db data = (Inr msg, db')"
  shows "get_all_clients db' =
     (if clients db = [] \<and> data = [] then Message ''No clients found''
      else Trees (result_trees db @ map tree_of_entry data))"
proof -
  from assms(3) have cl: "create_loop db data = Inr db'" by (simp add: create_clients_Inr)
  from create_loop_inv [OF cl assms(1,2)]
  have rt: "result_trees db' = result_trees db @ map tree_of_entry data" by simp
  have "length (result_trees db') = length (clients db) + length data"
    by (simp add: rt) (simp add: result_trees_def)
  then have "length (clients db') = length (clients db) + length data"
    by (simp add: result_trees_def)
  then have "clients db' = [] \<longleftrightarrow> clients db = [] \<and> data = []"
    by (metis add_is_0 length_0_conv)
  then show ?thesis by (simp add: get_all_clients_def rt)
qed

theorem list_after_create_witness:
  "inv_db empty_db \<and> client_data_ok acme_entry \<and>
   get_all_clients (snd (create_clients empty_db [acme_entry])) =
     Trees [tree_of_entry acme_entry]"
proof -
  have ok: "\<forall>e\<in>set [acme_entry]. client_data_ok e"
    by (simp add: client_data_ok_def computers_ok_def dict_ok_def dict_get_def acme_entry_def)
  have run: "create_clients empty_db [acme_entry] =
      (Inr ''Clients and computers created successfully'', snd (create_clients empty_db [acme_entry]))"
    by (simp add: create_clients_def transaction_def create_entry_def insert_client_def
        insert_computer_def insert_port_def next_id_def dict_get_def empty_db_def
        acme_entry_def)
  from list_after_create [OF inv_empty ok run] ok inv_empty
  show ?thesis by (simp add: result_trees_def empty_db_def)
qed

section \<open>update_client\<close>

subsection \<open>A body without computers\<close>

text \<open>
  Claim C10: on a client that exists, an update whose body has no \<open>computers\<close> key, or
  an empty dict under it, succeeds with the confirmation message and leaves the whole
  database as it was.
\<close>

theorem update_without_computers:
  assumes "n \<in> set (map Client_name (clients db))"
    and "upd_computers data = None \<or> upd_computers data = Some []"
  shows "update_client db n data =
           (Inr (''Client '' @ quoted n @ '' updated successfully''), db)"
proof -
  from find_name_Some [OF assms(1)] obtain client
    where "find (\<lambda>c. Client_name c = n) (clients db) = Some client" by blast
  moreover from assms(2) have "dict_get (upd_computers data) [] = []"
    by (auto simp: dict_get_def)
  ultimately show ?thesis
    by (simp add: update_client_def transaction_def commit_def)
qed

theorem update_without_computers_witness:
  "''acme'' \<in> set (map Client_name (clients acme_db)) \<and>
   update_client acme_db ''acme'' \<lparr>upd_computers = None\<rparr> =
     (Inr (''Client '' @ quoted ''acme'' @ '' updated successfully''), acme_db) \<and>
   update_client acme_db ''acme'' \<lparr>upd_computers = Some []\<rparr> =
     (Inr (''Client '' @ quoted ''acme'' @ '' updated successfully''), acme_db)"
proof -
  have h: "''acme'' \<in> set (map Client_name (clients acme_db))"
    by (simp add: acme_db_def)
  show ?thesis
    using h update_without_computers [OF h, of "\<lparr>upd_computers = None\<rparr>"]
      update_without_computers [OF h, of "\<lparr>upd_computers = Some []\<rparr>"]
    by simp
qed

subsection \<open>An address that is new\<close>

text \<open>
  Claim C2 says that an update with an address stored nowhere creates the computer with
  its latency, its hostname and all the ports given, as bulk-create does. The branch of
  \<open>update_client\<close> for a computer that is not found adds the computer and never reads
  the \<open>ports\<close> of the body: the client acme gets the computer 10.0.0.2, and the port
  22 of the body is not stored.
\<close>

theorem update_new_computer_drops_ports:
  "update_client acme_db ''acme'' new_host_patch =
     (Inr (''Client '' @ quoted ''acme'' @ '' updated successfully''),
      acme_db\<lparr>computers := computers acme_db @
        [\<lparr>Computer_id = 2, ip_address = ''10.0.0.2'', latency = Some ''1ms'',
          hostname = Some ''db1'', client_id = 1\<rparr>]\<rparr>)"
  by (simp add: update_client_def transaction_def commit_def acme_db_def new_host_patch_def
      update_computer_def insert_computer_def next_id_def dict_get_def)

text \<open>
  Claim C7 says that a port number already stored under the computer gets a new service
  name and nothing else, and that the same successful update applied twice leaves the
  database that one application leaves. With the body above the first update stores the
  computer without its port; the second finds the computer and stores port 22. The two
  databases differ.
\<close>

theorem update_twice_differs:
  "ports (snd (update_client acme_db ''acme'' new_host_patch)) = ports acme_db \<and>
   ports (snd (update_client (snd (update_client acme_db ''acme'' new_host_patch)) ''acme''
                 new_host_patch)) =
     ports acme_db @ [\<lparr>Port_id = 3, port_number = ''22'', service_name = Some ''ssh'',
                        computer_id = 2\<rparr>] \<and>
   snd (update_client (snd (update_client acme_db ''acme'' new_host_patch)) ''acme''
          new_host_patch) \<noteq>
   snd (update_client acme_db ''acme'' new_host_patch)"
  by (simp add: update_client_def transaction_def commit_def acme_db_def new_host_patch_def
      update_computer_def update_port_def set_computer_def insert_computer_def
      insert_port_def next_id_def dict_get_def)

section \<open>delete_client\<close>

lemma delete_cascade_eq:
  assumes "keys_ok db"
  shows "delete_cascade db client =
     \<lparr>clients = filter (\<lambda>c. Client_id c \<noteq> Client_id client) (clients db),
      computers = filter (\<lambda>r. client_id r \<noteq> Client_id client) (computers db),
      ports = filter (\<lambda>p. computer_id p \<notin>
                 Computer_id ` {r \<in> set (computers db). client_id r = Client_id client})
                (ports db)\<rparr>"
proof -
  have c: "distinct (map Computer_id (computers db))" and p: "distinct (map Port_id (ports db))"
    using assms by (simp_all add: keys_ok_def)
  show ?thesis
    unfolding delete_cascade_def Let_def
    by (simp add: filter_by_key [OF c] filter_by_key [OF p])
qed

text \<open>The tree of another client is the same after the cascade.\<close>

lemma client_view_delete:
  assumes k: "keys_ok db" and ne: "Client_id c \<noteq> cid"
    and co: "computers db' = filter (\<lambda>r. client_id r \<noteq> cid) (computers db)"
    and po: "ports db' = filter (\<lambda>p. computer_id p \<notin>
                 Computer_id ` {r \<in> set (computers db). client_id r = cid}) (ports db)"
  shows "client_view db' c = client_view db c"
proof -
  let ?F = "filter (\<lambda>r. client_id r = Client_id c) (computers db)"
  let ?S = "Computer_id ` {r \<in> set (computers db). client_id r = cid}"
  have F: "filter (\<lambda>r. client_id r = Client_id c) (computers db') = ?F"
    unfolding co using ne by (intro filter_filter_absorb) simp
  have d: "distinct (map Computer_id (computers db))" using k by (simp add: keys_ok_def)
  have "computer_view db' r = computer_view db r" if r: "r \<in> set ?F" for r
  proof -
    have rin: "r \<in> set (computers db)" and rc: "client_id r = Client_id c" using r by simp_all
    have notin: "Computer_id r \<notin> ?S"
    proof
      assume "Computer_id r \<in> ?S"
      then obtain r' where r': "r' \<in> set (computers db)" "client_id r' = cid"
          "Computer_id r = Computer_id r'" by auto
      with key_eq_iff [OF d rin r'(1)] have "r = r'" by simp
      with r'(2) rc ne show False by simp
    qed
    have "filter (\<lambda>p. computer_id p = Computer_id r) (ports db') =
          filter (\<lambda>p. computer_id p = Computer_id r) (ports db)"
      unfolding po
    proof (rule filter_filter_absorb)
      fix p assume "computer_id p = Computer_id r"
      then show "computer_id p \<notin> ?S" using notin by simp
    qed
    then show ?thesis by (simp add: computer_view_def)
  qed
  then have "map (computer_view db') ?F = map (computer_view db) ?F" by simp
  then show ?thesis by (simp add: client_view_def F)
qed

lemma delete_cascade_inv:
  assumes inv: "inv_db db"
  shows "inv_db (delete_cascade db client)"
proof -
  have k: "keys_ok db" and o: "owned db" and u: "port_unique db"
    using inv by (simp_all add: inv_db_def)
  note E = delete_cascade_eq [OF k, of client]
  let ?S = "Computer_id ` {r \<in> set (computers db). client_id r = Client_id client}"
  have k': "keys_ok (delete_cascade db client)"
    using k by (simp add: E keys_ok_def distinct_map_filter)
  have u': "port_unique (delete_cascade db client)"
    using u by (simp add: E port_unique_def distinct_map_filter)
  have o1: "\<forall>r\<in>set (computers (delete_cascade db client)).
      client_id r \<in> set (map Client_id (clients (delete_cascade db client)))"
  proof
    fix r assume "r \<in> set (computers (delete_cascade db client))"
    then have r: "r \<in> set (computers db)" "client_id r \<noteq> Client_id client"
      by (simp_all add: E)
    with o obtain c where "c \<in> set (clients db)" "Client_id c = client_id r"
      by (auto simp: owned_def)
    with r(2) show "client_id r \<in> set (map Client_id (clients (delete_cascade db client)))"
      by (force simp: E)
  qed
  have o2: "\<forall>p\<in>set (ports (delete_cascade db client)).
      computer_id p \<in> set (map Computer_id (computers (delete_cascade db client)))"
  proof
    fix p assume "p \<in> set (ports (delete_cascade db client))"
    then have p: "p \<in> set (ports db)" "computer_id p \<notin> ?S"
      by (simp_all add: E)
    with o obtain r where r: "r \<in> set (computers db)" "Computer_id r = computer_id p"
      by (auto simp: owned_def)
    have "client_id r \<noteq> Client_id client"
    proof
      assume "client_id r = Client_id client"
      then have "Computer_id r \<in> ?S" using r(1) by blast
      then show False using p(2) r(2) by simp
    qed
    with r show "computer_id p \<in> set (map Computer_id (computers (delete_cascade db client)))"
      by (force simp: E)
  qed
  show ?thesis using k' u' o1 o2 by (simp add: inv_db_def owned_def)
qed

text \<open>
  Claim C8: deleting a client that exists removes the client, every computer it owns
  and every port of these computers; list-all afterwards is the listing before without
  the tree of that client, every other tree unchanged. Deleting a name that no client
  has raises the 404 \<open>Client not found\<close>, which leaves the handler inside a 500, and
  the database is unchanged.
\<close>

theorem delete_client_cascade:
  "(inv_db db \<and> client \<in> set (clients db) \<and> Client_name client = n \<longrightarrow>
      (\<exists>db'. delete_client db n =
                (Inr (''Client '' @ quoted n @ '' deleted successfully''), db') \<and>
         clients db' = filter (\<lambda>c. c \<noteq> client) (clients db) \<and>
         computers db' = filter (\<lambda>r. client_id r \<noteq> Client_id client) (computers db) \<and>
         ports db' = filter (\<lambda>p. \<forall>r\<in>set (computers db). Computer_id r = computer_id p \<longrightarrow>
             client_id r \<noteq> Client_id client) (ports db) \<and>
         result_trees db' = filter (\<lambda>t. out_client t \<noteq> n) (result_trees db) \<and>
         get_all_clients db' =
           (if filter (\<lambda>t. out_client t \<noteq> n) (result_trees db) = []
            then Message ''No clients found''
            else Trees (filter (\<lambda>t. out_client t \<noteq> n) (result_trees db))) \<and>
         inv_db db')) \<and>
   (n \<notin> Client_name ` set (clients db) \<longrightarrow>
      delete_client db n =
        (Inl (HTTPException 500 (Str (HTTPException 404 (Text ''Client not found'')))), db))"
proof (intro conjI impI)
  assume "n \<notin> Client_name ` set (clients db)"
  then have "find (\<lambda>c. Client_name c = n) (clients db) = None"
    by (auto simp: find_None_iff)
  then show "delete_client db n =
        (Inl (HTTPException 500 (Str (HTTPException 404 (Text ''Client not found'')))), db)"
    by (simp add: delete_client_def transaction_def)
next
  assume a: "inv_db db \<and> client \<in> set (clients db) \<and> Client_name client = n"
  then have inv: "inv_db db" and cl: "client \<in> set (clients db)"
    and n: "Client_name client = n" by simp_all
  have k: "keys_ok db" using inv by (simp add: inv_db_def)
  have dn: "distinct (map Client_name (clients db))" and di: "distinct (map Client_id (clients db))"
    using k by (simp_all add: keys_ok_def)
  let ?db' = "delete_cascade db client"
  note E = delete_cascade_eq [OF k, of client]
  have f: "find (\<lambda>c. Client_name c = n) (clients db) = Some client"
    using find_client [OF k cl] n by simp
  have run: "delete_client db n =
      (Inr (''Client '' @ quoted n @ '' deleted successfully''), ?db')"
    by (simp add: delete_client_def transaction_def f)
  have c1: "clients ?db' = filter (\<lambda>c. c \<noteq> client) (clients db)"
    unfolding E using key_eq_iff [OF di _ cl] by (auto intro!: filter_cong)
  have c2: "computers ?db' = filter (\<lambda>r. client_id r \<noteq> Client_id client) (computers db)"
    by (simp add: E)
  have c3: "ports ?db' = filter (\<lambda>p. computer_id p \<notin>
             Computer_id ` {r \<in> set (computers db). client_id r = Client_id client}) (ports db)"
    by (simp add: E)
  have c3': "ports ?db' = filter (\<lambda>p. \<forall>r\<in>set (computers db).
      Computer_id r = computer_id p \<longrightarrow> client_id r \<noteq> Client_id client) (ports db)"
    unfolding c3
  proof (rule filter_cong [OF refl])
    fix p
    let ?S = "Computer_id ` {r \<in> set (computers db). client_id r = Client_id client}"
    show "(computer_id p \<notin> ?S) =
          (\<forall>r\<in>set (computers db). Computer_id r = computer_id p \<longrightarrow>
             client_id r \<noteq> Client_id client)"
    proof
      assume L: "computer_id p \<notin> ?S"
      show "\<forall>r\<in>set (computers db). Computer_id r = computer_id p \<longrightarrow>
              client_id r \<noteq> Client_id client"
      proof (intro ballI impI notI)
        fix r
        assume r: "r \<in> set (computers db)" and e: "Computer_id r = computer_id p"
          and o: "client_id r = Client_id client"
        from r o have "Computer_id r \<in> ?S" by blast
        with L e show False by simp
      qed
    next
      assume R: "\<forall>r\<in>set (computers db). Computer_id r = computer_id p \<longrightarrow>
              client_id r \<noteq> Client_id client"
      show "computer_id p \<notin> ?S"
      proof
        assume "computer_id p \<in> ?S"
        then obtain r where r: "r \<in> set (computers db)" "client_id r = Client_id client"
          "computer_id p = Computer_id r" by auto
        from bspec [OF R r(1)] r(2) r(3) show False by simp
      qed
    qed
  qed
  have same: "client_view ?db' c = client_view db c"
    if "c \<in> set (clients db)" "c \<noteq> client" for c
  proof (rule client_view_delete [OF k _ c2 c3])
    show "Client_id c \<noteq> Client_id client" using key_eq_iff [OF di that(1) cl] that(2) by simp
  qed
  have names: "filter (\<lambda>c. Client_name c \<noteq> n) (clients db) = filter (\<lambda>c. c \<noteq> client) (clients db)"
    using key_eq_iff [OF dn _ cl] n by (auto intro!: filter_cong)
  have "result_trees ?db' = map (client_view ?db') (filter (\<lambda>c. c \<noteq> client) (clients db))"
    by (simp add: result_trees_def c1)
  also have "\<dots> = map (client_view db) (filter (\<lambda>c. c \<noteq> client) (clients db))"
    using same by simp
  also have "\<dots> = filter (\<lambda>t. out_client t \<noteq> n) (result_trees db)"
    by (simp add: result_trees_def filter_map comp_def client_view_def names)
  finally have c4: "result_trees ?db' = filter (\<lambda>t. out_client t \<noteq> n) (result_trees db)" .
  have "clients ?db' = [] \<longleftrightarrow> result_trees ?db' = []" by (simp add: result_trees_def)
  then have c5: "get_all_clients ?db' =
           (if filter (\<lambda>t. out_client t \<noteq> n) (result_trees db) = []
            then Message ''No clients found''
            else Trees (filter (\<lambda>t. out_client t \<noteq> n) (result_trees db)))"
    by (simp add: get_all_clients_def c4)
  have c6: "inv_db ?db'" by (rule delete_cascade_inv [OF inv])
  show "\<exists>db'. delete_client db n =
                (Inr (''Client '' @ quoted n @ '' deleted successfully''), db') \<and>
         clients db' = filter (\<lambda>c. c \<noteq> client) (clients db) \<and>
         computers db' = filter (\<lambda>r. client_id r \<noteq> Client_id client) (computers db) \<and>
         ports db' = filter (\<lambda>p. \<forall>r\<in>set (computers db). Computer_id r = computer_id p \<longrightarrow>
             client_id r \<noteq> Client_id client) (ports db) \<and>
         result_trees db' = filter (\<lambda>t. out_client t \<noteq> n) (result_trees db) \<and>
         get_all_clients db' =
           (if filter (\<lambda>t. out_client t \<noteq> n) (result_trees db) = []
            then Message ''No clients found''
            else Trees (filter (\<lambda>t. out_client t \<noteq> n) (result_trees db))) \<and>
         inv_db db'"
    using run c1 c2 c3' c4 c5 c6 by blast
qed

lemma inv_acme: "inv_db acme_db"
  by (simp add: inv_db_def keys_ok_def owned_def port_unique_def port_key_def acme_db_def)

theorem delete_client_cascade_witness:
  "inv_db acme_db \<and>
   (\<exists>db'. delete_client acme_db ''acme'' =
             (Inr (''Client '' @ quoted ''acme'' @ '' deleted successfully''), db') \<and>
      clients db' = [] \<and> computers db' = [] \<and> ports db' = [] \<and>
      get_all_clients db' = Message ''No clients found'') \<and>
   delete_client acme_db ''nobody'' =
     (Inl (HTTPException 500 (Str (HTTPException 404 (Text ''Client not found'')))), acme_db)"
proof -
  let ?c = "\<lparr>Client_id = 1, Client_name = ''acme''\<rparr>"
  have c: "?c \<in> set (clients acme_db)" "Client_name ?c = ''acme''"
    by (simp_all add: acme_db_def)
  have nb: "''nobody'' \<notin> Client_name ` set (clients acme_db)" by (simp add: acme_db_def)
  from delete_client_cascade [of acme_db ?c "''acme''"] inv_acme c obtain db' where
    d: "delete_client acme_db ''acme'' =
          (Inr (''Client '' @ quoted ''acme'' @ '' deleted successfully''), db')"
      "clients db' = filter (\<lambda>c. c \<noteq> ?c) (clients acme_db)"
      "computers db' = filter (\<lambda>r. client_id r \<noteq> Client_id ?c) (computers acme_db)"
      "ports db' = filter (\<lambda>p. \<forall>r\<in>set (computers acme_db).
          Computer_id r = computer_id p \<longrightarrow> client_id r \<noteq> Client_id ?c) (ports acme_db)"
      "get_all_clients db' =
           (if filter (\<lambda>t. out_client t \<noteq> ''acme'') (result_trees acme_db) = []
            then Message ''No clients found''
            else Trees (filter (\<lambda>t. out_client t \<noteq> ''acme'') (result_trees acme_db)))"
    by blast
  have e1: "clients db' = []" using d(2) by (simp add: acme_db_def)
  have e2: "computers db' = []" using d(3) by (simp add: acme_db_def)
  have e3: "ports db' = []" using d(4) by (simp add: acme_db_def)
  have e4: "get_all_clients db' = Message ''No clients found''"
    using d(5) by (simp add: acme_db_def result_trees_def client_view_def)
  from delete_client_cascade [of acme_db ?c "''nobody''"] nb
  have e5: "delete_client acme_db ''nobody'' =
     (Inl (HTTPException 500 (Str (HTTPException 404 (Text ''Client not found'')))), acme_db)"
    by simp
  show ?thesis using inv_acme d(1) e1 e2 e3 e4 e5 by blast
qed

section \<open>What update_client keeps\<close>

lemma set_computer_frame:
  "clients (persistent (set_computer s i l h)) = clients (persistent s)"
  "ports (persistent (set_computer s i l h)) = ports (persistent s)"
  "new_computers (set_computer s i l h) = new_computers s"
  "new_ports (set_computer s i l h) = new_ports s"
  "map Computer_id (computers (persistent (set_computer s i l h))) =
     map Computer_id (computers (persistent s))"
  "map ip_address (computers (persistent (set_computer s i l h))) =
     map ip_address (computers (persistent s))"
  "map client_id (computers (persistent (set_computer s i l h))) =
     map client_id (computers (persistent s))"
  by (simp_all add: set_computer_def map_if_frame)

lemma set_service_name_frame:
  "clients (persistent (set_service_name s i v)) = clients (persistent s)"
  "computers (persistent (set_service_name s i v)) = computers (persistent s)"
  "new_computers (set_service_name s i v) = new_computers s"
  "new_ports (set_service_name s i v) = new_ports s"
  "map Port_id (ports (persistent (set_service_name s i v))) = map Port_id (ports (persistent s))"
  "map port_key (ports (persistent (set_service_name s i v))) = map port_key (ports (persistent s))"
  by (simp_all add: set_service_name_def map_if_frame port_key_def)

lemma update_port_frame:
  "clients (persistent (update_port s cid item)) = clients (persistent s)"
  "computers (persistent (update_port s cid item)) = computers (persistent s)"
  "new_computers (update_port s cid item) = new_computers s"
  "map Port_id (ports (persistent (update_port s cid item))) = map Port_id (ports (persistent s))"
  "map port_key (ports (persistent (update_port s cid item))) = map port_key (ports (persistent s))"
  by (simp_all add: update_port_def set_service_name_frame split: prod.splits option.splits)

lemma update_ports_clients:
  "clients (persistent (update_ports s cid d)) = clients (persistent s)"
  by (induction s cid d rule: update_ports.induct) (simp_all add: update_port_frame)

lemma update_ports_computers:
  "computers (persistent (update_ports s cid d)) = computers (persistent s)"
  by (induction s cid d rule: update_ports.induct) (simp_all add: update_port_frame)

lemma update_ports_new_computers:
  "new_computers (update_ports s cid d) = new_computers s"
  by (induction s cid d rule: update_ports.induct) (simp_all add: update_port_frame)

lemma update_ports_port_ids:
  "map Port_id (ports (persistent (update_ports s cid d))) = map Port_id (ports (persistent s))"
  by (induction s cid d rule: update_ports.induct) (simp_all add: update_port_frame)

lemma update_ports_port_keys:
  "map port_key (ports (persistent (update_ports s cid d))) = map port_key (ports (persistent s))"
  by (induction s cid d rule: update_ports.induct) (simp_all add: update_port_frame)

lemma update_computer_found:
  "find (\<lambda>c. ip_address c = ip \<and> client_id c = cl) (computers (persistent s)) = Some computer \<Longrightarrow>
   update_computer s cl (ip, cd) =
     update_ports
       (set_computer s (Computer_id computer)
          (dict_get (key_latency cd) (latency computer))
          (dict_get (key_hostname cd) (hostname computer)))
       (Computer_id computer) (dict_get (key_ports cd) [])"
  by (simp add: update_computer_def)

lemma update_computer_missing:
  "find (\<lambda>c. ip_address c = ip \<and> client_id c = cl) (computers (persistent s)) = None \<Longrightarrow>
   update_computer s cl (ip, cd) =
     s\<lparr>new_computers := new_computers s @
         [(ip, dict_get (key_latency cd) None, dict_get (key_hostname cd) None, cl)]\<rparr>"
  by (simp add: update_computer_def)

lemma update_computer_frame:
  "clients (persistent (update_computer s cl item)) = clients (persistent s)"
  "map Computer_id (computers (persistent (update_computer s cl item))) =
     map Computer_id (computers (persistent s))"
  "map ip_address (computers (persistent (update_computer s cl item))) =
     map ip_address (computers (persistent s))"
  "map client_id (computers (persistent (update_computer s cl item))) =
     map client_id (computers (persistent s))"
  "map Port_id (ports (persistent (update_computer s cl item))) = map Port_id (ports (persistent s))"
  "map port_key (ports (persistent (update_computer s cl item))) = map port_key (ports (persistent s))"
  by (simp_all add: update_computer_def update_ports_clients update_ports_computers
      update_ports_port_ids update_ports_port_keys set_computer_frame
      split: prod.splits option.splits)

lemma owner_sig:
  assumes "map ip_address (xs :: Computer list) = map ip_address (ys :: Computer list)"
    and "map client_id xs = map client_id ys"
  shows "(\<exists>r\<in>set xs. ip_address r = x \<and> client_id r = cl) \<longleftrightarrow>
         (\<exists>r\<in>set ys. ip_address r = x \<and> client_id r = cl)"
proof -
  have "set (map (\<lambda>r. (ip_address r, client_id r)) xs) =
        set (map (\<lambda>r. (ip_address r, client_id r)) ys)"
    using map_pair_cong [OF assms] by simp
  then have "(x, cl) \<in> (\<lambda>r. (ip_address r, client_id r)) ` set xs \<longleftrightarrow>
             (x, cl) \<in> (\<lambda>r. (ip_address r, client_id r)) ` set ys" by simp
  then show ?thesis by (auto simp: image_iff)
qed

lemma update_computer_new_mono:
  "set (new_computers s) \<subseteq> set (new_computers (update_computer s cl item))"
  by (auto simp: update_computer_def update_ports_new_computers set_computer_frame
      split: prod.splits option.splits)

lemma update_computers_new_mono:
  "set (new_computers s) \<subseteq> set (new_computers (update_computers s cl d))"
proof (induction d arbitrary: s)
  case Nil
  show ?case by simp
next
  case (Cons item d)
  show ?case using update_computer_new_mono [of s cl item] Cons.IH [of "update_computer s cl item"]
    by auto
qed

lemma update_computers_adds:
  assumes "(x, cd) \<in> set d"
    and "\<not> (\<exists>r\<in>set (computers (persistent s)). ip_address r = x \<and> client_id r = cl)"
  shows "x \<in> fst ` set (new_computers (update_computers s cl d))"
  using assms
proof (induction d arbitrary: s)
  case Nil
  then show ?case by simp
next
  case (Cons item d)
  let ?s1 = "update_computer s cl item"
  show ?case
  proof (cases "item = (x, cd)")
    case True
    have "find (\<lambda>c. ip_address c = x \<and> client_id c = cl) (computers (persistent s)) = None"
      using Cons.prems(2) by (auto simp: find_None_iff)
    then have "x \<in> fst ` set (new_computers ?s1)"
      using True by (simp add: update_computer_def)
    then show ?thesis using update_computers_new_mono [of ?s1 cl d] by auto
  next
    case False
    then have mem: "(x, cd) \<in> set d" using Cons.prems(1) by simp
    have "\<not> (\<exists>r\<in>set (computers (persistent ?s1)). ip_address r = x \<and> client_id r = cl)"
      using Cons.prems(2)
        owner_sig [OF update_computer_frame(3) [of s cl item] update_computer_frame(4) [of s cl item]]
      by simp
    from Cons.IH [OF mem this] show ?thesis by simp
  qed
qed

lemma update_computers_ips:
  "map ip_address (computers (persistent (update_computers s cl d))) =
   map ip_address (computers (persistent s))"
  by (induction d arbitrary: s) (simp_all add: update_computer_frame)

lemma insert_computers_clash:
  "\<exists>c\<in>set cs. fst c \<in> ip_address ` set (computers db) \<Longrightarrow>
   insert_computers db cs = Inl (IntegrityError ''computers.ip_address'')"
proof (induction cs arbitrary: db)
  case Nil
  then show ?case by simp
next
  case (Cons c cs)
  show ?case
  proof (cases "insert_computer db c")
    case (Inl e)
    then show ?thesis using insert_computer_Inl [OF Inl] by simp
  next
    case (Inr res)
    obtain i db1 where res: "res = (i, db1)" by (cases res)
    note I = insert_computer_ips [OF Inr [unfolded res]]
    have "set (map ip_address (computers db1)) = set (map ip_address (computers db)) \<union> {fst c}"
      using I by simp
    then have sub: "ip_address ` set (computers db) \<subseteq> ip_address ` set (computers db1)"
      by auto
    have "\<exists>c\<in>set cs. fst c \<in> ip_address ` set (computers db)"
      using Cons.prems I by auto
    then have "\<exists>c\<in>set cs. fst c \<in> ip_address ` set (computers db1)" using sub by blast
    from Cons.IH [OF this] show ?thesis using Inr res by simp
  qed
qed

text \<open>An address stored under another client: the new row fails at the commit.\<close>

lemma update_client_clash:
  assumes f: "find (\<lambda>c. Client_name c = n) (clients db) = Some client"
    and mem: "(x, cd) \<in> set d"
    and ex: "x \<in> ip_address ` set (computers db)"
    and other: "\<not> (\<exists>r\<in>set (computers db). ip_address r = x \<and> client_id r = Client_id client)"
  shows "update_client db n \<lparr>upd_computers = Some d\<rparr> =
     (Inl (HTTPException 500 (Str (IntegrityError ''computers.ip_address''))), db)"
proof -
  let ?init = "\<lparr>persistent = db, new_computers = [], new_ports = []\<rparr>"
  let ?fin = "update_computers ?init (Client_id client) d"
  have "\<not> (\<exists>r\<in>set (computers (persistent ?init)). ip_address r = x \<and>
             client_id r = Client_id client)"
    using other by simp
  from update_computers_adds [OF mem this]
  have a: "x \<in> fst ` set (new_computers ?fin)" .
  have "map ip_address (computers (persistent ?fin)) = map ip_address (computers db)"
    using update_computers_ips [of ?init "Client_id client" d] by simp
  then have "set (map ip_address (computers (persistent ?fin))) =
             set (map ip_address (computers db))" by simp
  then have b: "ip_address ` set (computers (persistent ?fin)) = ip_address ` set (computers db)"
    by simp
  have "\<exists>c\<in>set (new_computers ?fin). fst c \<in> ip_address ` set (computers (persistent ?fin))"
    using a ex unfolding b by auto
  from insert_computers_clash [OF this]
  have "commit ?fin = Inl (IntegrityError ''computers.ip_address'')"
    by (simp add: commit_def)
  then show ?thesis
    by (simp add: update_client_def transaction_def f dict_get_def)
qed

subsection \<open>A body with a latency only\<close>

text \<open>
  Claim C6: when the client owns a computer with the address, an update whose body for
  that address holds a latency and nothing else succeeds; in the database it leaves,
  that row has the new latency and is otherwise the same, and every other row of the
  three tables is the same.
\<close>

theorem update_only_latency:
  assumes k: "keys_ok db" and cl: "client \<in> set (clients db)" and n: "Client_name client = n"
    and c: "computer \<in> set (computers db)" and x: "ip_address computer = x"
    and own: "client_id computer = Client_id client"
  shows "update_client db n
           \<lparr>upd_computers = Some [(x, \<lparr>key_latency = Some v, key_hostname = None,
                                       key_ports = None\<rparr>)]\<rparr> =
         (Inr (''Client '' @ quoted n @ '' updated successfully''),
          db\<lparr>computers := map (\<lambda>r. if r = computer then r\<lparr>latency := v\<rparr> else r)
                             (computers db)\<rparr>)"
proof -
  let ?init = "\<lparr>persistent = db, new_computers = [], new_ports = []\<rparr>"
  let ?cd = "\<lparr>key_latency = Some v, key_hostname = None, key_ports = None\<rparr>"
  have f: "find (\<lambda>c. Client_name c = n) (clients db) = Some client"
    using find_client [OF k cl] n by simp
  have dip: "distinct (map ip_address (computers db))"
    and did: "distinct (map Computer_id (computers db))"
    using k by (simp_all add: keys_ok_def)
  have g: "find (\<lambda>c. ip_address c = x \<and> client_id c = Client_id client)
             (computers (persistent ?init)) = Some computer"
    using find_unique [OF dip c, of "\<lambda>c. client_id c = Client_id client"] x own by simp
  have l: "dict_get (key_latency ?cd) (latency computer) = v"
    and h: "dict_get (key_hostname ?cd) (hostname computer) = hostname computer"
    and p: "dict_get (key_ports ?cd) [] = []"
    by (simp_all add: dict_get_def)
  have step: "update_computer ?init (Client_id client) (x, ?cd) =
        set_computer ?init (Computer_id computer) v (hostname computer)"
    unfolding update_computer_found [OF g] l h p by simp
  have m: "map (\<lambda>r. if Computer_id r = Computer_id computer
                    then r\<lparr>latency := v, hostname := hostname computer\<rparr> else r) (computers db) =
           map (\<lambda>r. if r = computer then r\<lparr>latency := v\<rparr> else r) (computers db)"
  proof (rule map_cong [OF refl])
    fix r assume r: "r \<in> set (computers db)"
    show "(if Computer_id r = Computer_id computer
           then r\<lparr>latency := v, hostname := hostname computer\<rparr> else r) =
          (if r = computer then r\<lparr>latency := v\<rparr> else r)"
      using key_eq_iff [OF did r c] by auto
  qed
  have fin: "commit (set_computer ?init (Computer_id computer) v (hostname computer)) =
      Inr (db\<lparr>computers := map (\<lambda>r. if r = computer then r\<lparr>latency := v\<rparr> else r)
                             (computers db)\<rparr>)"
    by (simp add: commit_def set_computer_def m)
  have d: "dict_get (upd_computers \<lparr>upd_computers = Some [(x, ?cd)]\<rparr>) [] = [(x, ?cd)]"
    by (simp add: dict_get_def)
  show ?thesis
    unfolding update_client_def f d by (simp add: step fin transaction_def)
qed

theorem update_only_latency_witness:
  "keys_ok acme_db \<and>
   update_client acme_db ''acme''
     \<lparr>upd_computers = Some [(''10.0.0.1'', \<lparr>key_latency = Some (Some ''5ms''),
                                key_hostname = None, key_ports = None\<rparr>)]\<rparr> =
   (Inr (''Client '' @ quoted ''acme'' @ '' updated successfully''),
    acme_db\<lparr>computers := [\<lparr>Computer_id = 1, ip_address = ''10.0.0.1'', latency = Some ''5ms'',
                             hostname = Some ''web1'', client_id = 1\<rparr>]\<rparr>)"
proof -
  let ?c = "\<lparr>Client_id = 1, Client_name = ''acme''\<rparr>"
  let ?r = "\<lparr>Computer_id = 1, ip_address = ''10.0.0.1'', latency = Some ''2ms'',
             hostname = Some ''web1'', client_id = 1\<rparr>"
  have k: "keys_ok acme_db" using inv_acme by (simp add: inv_db_def)
  have c: "?c \<in> set (clients acme_db)" and r: "?r \<in> set (computers acme_db)"
    by (simp_all add: acme_db_def)
  have n: "Client_name ?c = ''acme''" and x: "ip_address ?r = ''10.0.0.1''"
    and own: "client_id ?r = Client_id ?c" by simp_all
  from update_only_latency [OF k c n r x own, of "Some ''5ms''"] k
  show ?thesis by (simp add: acme_db_def)
qed

subsection \<open>A port that is stored\<close>

text \<open>
  The part of the upsert that overwrites: a body that gives one port number already
  stored under the computer changes the service name of that row and nothing else.
  Applying \<open>port_patch\<close>, which only touches a stored computer, twice is the same as
  applying it once.
\<close>

lemma update_existing_port:
  assumes k: "keys_ok db" and u: "port_unique db"
    and cl: "client \<in> set (clients db)" and n: "Client_name client = n"
    and c: "computer \<in> set (computers db)" and x: "ip_address computer = x"
    and own: "client_id computer = Client_id client"
    and p: "p \<in> set (ports db)" and pc: "computer_id p = Computer_id computer"
    and pn: "port_number p = port"
  shows "update_client db n
           \<lparr>upd_computers = Some [(x, \<lparr>key_latency = None, key_hostname = None,
                                       key_ports = Some [(port, service)]\<rparr>)]\<rparr> =
         (Inr (''Client '' @ quoted n @ '' updated successfully''),
          db\<lparr>ports := map (\<lambda>q. if q = p then q\<lparr>service_name := service\<rparr> else q)
                         (ports db)\<rparr>)"
proof -
  let ?init = "\<lparr>persistent = db, new_computers = [], new_ports = []\<rparr>"
  let ?cd = "\<lparr>key_latency = None, key_hostname = None, key_ports = Some [(port, service)]\<rparr>"
  let ?k = "Computer_id computer"
  have f: "find (\<lambda>c. Client_name c = n) (clients db) = Some client"
    using find_client [OF k cl] n by simp
  have dip: "distinct (map ip_address (computers db))"
    and did: "distinct (map Computer_id (computers db))"
    and dpi: "distinct (map Port_id (ports db))"
    using k by (simp_all add: keys_ok_def)
  have dpk: "distinct (map port_key (ports db))" using u by (simp add: port_unique_def)
  have g: "find (\<lambda>c. ip_address c = x \<and> client_id c = Client_id client)
             (computers (persistent ?init)) = Some computer"
    using find_unique [OF dip c, of "\<lambda>c. client_id c = Client_id client"] x own by simp
  have l: "dict_get (key_latency ?cd) (latency computer) = latency computer"
    and h: "dict_get (key_hostname ?cd) (hostname computer) = hostname computer"
    and d: "dict_get (key_ports ?cd) [] = [(port, service)]"
    by (simp_all add: dict_get_def)
  have same: "map (\<lambda>r. if Computer_id r = ?k
                    then r\<lparr>latency := latency computer, hostname := hostname computer\<rparr>
                    else r) (computers db) = computers db"
  proof -
    have "map (\<lambda>r. if Computer_id r = ?k
                    then r\<lparr>latency := latency computer, hostname := hostname computer\<rparr>
                    else r) (computers db) = map (\<lambda>r. r) (computers db)"
    proof (rule map_cong [OF refl])
      fix r assume r: "r \<in> set (computers db)"
      show "(if Computer_id r = ?k
             then r\<lparr>latency := latency computer, hostname := hostname computer\<rparr> else r) = r"
        using key_eq_iff [OF did r c] by auto
    qed
    then show ?thesis by simp
  qed
  have s1: "set_computer ?init ?k (latency computer) (hostname computer) = ?init"
    by (simp add: set_computer_def same)
  have "port_key p = (?k, port)" using pc pn by (simp add: port_key_def)
  from find_unique [OF dpk p, of "\<lambda>q. True"] this
  have "find (\<lambda>q. port_key q = (?k, port)) (ports db) = Some p" by simp
  then have fp: "find (\<lambda>q. computer_id q = ?k \<and> port_number q = port) (ports db) = Some p"
    by (simp add: port_key_def)
  have s2: "update_port ?init ?k (port, service) = set_service_name ?init (Port_id p) service"
    by (simp add: update_port_def fp)
  have step: "update_computer ?init (Client_id client) (x, ?cd) =
        set_service_name ?init (Port_id p) service"
    unfolding update_computer_found [OF g] l h d s1 by (simp add: s2)
  have m: "map (\<lambda>q. if Port_id q = Port_id p then q\<lparr>service_name := service\<rparr> else q) (ports db) =
           map (\<lambda>q. if q = p then q\<lparr>service_name := service\<rparr> else q) (ports db)"
  proof (rule map_cong [OF refl])
    fix q assume q: "q \<in> set (ports db)"
    show "(if Port_id q = Port_id p then q\<lparr>service_name := service\<rparr> else q) =
          (if q = p then q\<lparr>service_name := service\<rparr> else q)"
      using key_eq_iff [OF dpi q p] by auto
  qed
  have fin: "commit (set_service_name ?init (Port_id p) service) =
      Inr (db\<lparr>ports := map (\<lambda>q. if q = p then q\<lparr>service_name := service\<rparr> else q)
                         (ports db)\<rparr>)"
    by (simp add: commit_def set_service_name_def m)
  have dd: "dict_get (upd_computers \<lparr>upd_computers = Some [(x, ?cd)]\<rparr>) [] = [(x, ?cd)]"
    by (simp add: dict_get_def)
  show ?thesis
    unfolding update_client_def f dd by (simp add: step fin transaction_def)
qed

lemma port_patch_twice:
  "snd (update_client (snd (update_client acme_db ''acme'' port_patch)) ''acme'' port_patch) =
   snd (update_client acme_db ''acme'' port_patch)"
  by (simp add: update_client_def transaction_def commit_def acme_db_def port_patch_def
      update_computer_def update_port_def set_computer_def set_service_name_def
      insert_computer_def insert_port_def next_id_def dict_get_def)

section \<open>Names and addresses that are taken\<close>

lemma create_computers_frame:
  "create_computers db cid d = Inr db' \<Longrightarrow>
   clients db' = clients db \<and>
   map ip_address (computers db') = map ip_address (computers db) @ map fst d"
proof (induction d arbitrary: db)
  case Nil
  then show ?case by simp
next
  case (Cons a rest)
  obtain ip cd where a: "a = (ip, cd)" by (cases a)
  let ?pd = "dict_get (key_ports cd) []"
  from Cons.prems a obtain i db1
    where ins: "insert_computer db
                  (ip, dict_get (key_latency cd) None, dict_get (key_hostname cd) None, cid) =
                Inr (i, db1)"
      and rec: "create_computers (create_ports db1 i ?pd) cid rest = Inr db'"
    by (auto split: sum.splits)
  note I = insert_computer_Inr [OF ins]
  have "clients (create_ports db1 i ?pd) = clients db"
    by (simp add: create_ports_clients I(3))
  moreover have "map ip_address (computers (create_ports db1 i ?pd)) =
                 map ip_address (computers db) @ [ip]"
    by (simp add: create_ports_computers I(3))
  ultimately show ?case using Cons.IH [OF rec] a by simp
qed

lemma create_computers_Inl:
  "create_computers db cid d = Inl e \<Longrightarrow> e = IntegrityError ''computers.ip_address''"
proof (induction d arbitrary: db)
  case Nil
  then show ?case by simp
next
  case (Cons a rest)
  obtain ip cd where a: "a = (ip, cd)" by (cases a)
  let ?c = "(ip, dict_get (key_latency cd) None, dict_get (key_hostname cd) None, cid)"
  show ?case
  proof (cases "insert_computer db ?c")
    case (Inl x)
    then show ?thesis using Cons.prems a insert_computer_Inl [OF Inl] by simp
  next
    case (Inr res)
    obtain i db1 where res: "res = (i, db1)" by (cases res)
    from Cons.prems a Inr res
    have "create_computers (create_ports db1 i (dict_get (key_ports cd) [])) cid rest = Inl e"
      by simp
    then show ?thesis by (rule Cons.IH)
  qed
qed

lemma create_computers_fresh:
  "create_computers db cid d = Inr db' \<Longrightarrow>
   fst ` set d \<inter> ip_address ` set (computers db) = {}"
proof (induction d arbitrary: db)
  case Nil
  then show ?case by simp
next
  case (Cons a rest)
  obtain ip cd where a: "a = (ip, cd)" by (cases a)
  let ?pd = "dict_get (key_ports cd) []"
  from Cons.prems a obtain i db1
    where ins: "insert_computer db
                  (ip, dict_get (key_latency cd) None, dict_get (key_hostname cd) None, cid) =
                Inr (i, db1)"
      and rec: "create_computers (create_ports db1 i ?pd) cid rest = Inr db'"
    by (auto split: sum.splits)
  note I = insert_computer_Inr [OF ins]
  have sub: "ip_address ` set (computers db) \<subseteq>
             ip_address ` set (computers (create_ports db1 i ?pd))"
    by (auto simp: create_ports_computers I(3))
  from Cons.IH [OF rec]
  have "fst ` set rest \<inter> ip_address ` set (computers (create_ports db1 i ?pd)) = {}" .
  with sub have "fst ` set rest \<inter> ip_address ` set (computers db) = {}" by blast
  then show ?case using I(1) a by simp
qed

lemma create_computers_clash:
  assumes "\<exists>item\<in>set d. fst item \<in> ip_address ` set (computers db)"
  shows "create_computers db cid d = Inl (IntegrityError ''computers.ip_address'')"
proof (cases "create_computers db cid d")
  case (Inl e)
  then show ?thesis using create_computers_Inl [OF Inl] by simp
next
  case (Inr db')
  from create_computers_fresh [OF Inr] assms show ?thesis by auto
qed

lemma create_entry_facts:
  assumes "create_entry db e = Inr db'"
  shows "\<exists>n cs. key_client e = Some n \<and> key_computers e = Some cs \<and>
     n \<notin> Client_name ` set (clients db) \<and>
     map Client_name (clients db') = map Client_name (clients db) @ [n] \<and>
     map ip_address (computers db') = map ip_address (computers db) @ map fst cs \<and>
     fst ` set cs \<inter> ip_address ` set (computers db) = {}"
proof -
  from create_entry_Inr [OF assms] obtain n cs i db1 where
    n: "key_client e = Some n" and cs: "key_computers e = Some cs" and
    ic: "insert_client db n = Inr (i, db1)" and cc: "create_computers db1 i cs = Inr db'"
    by blast
  note I = insert_client_Inr [OF ic]
  note F = create_computers_frame [OF cc]
  note G = create_computers_fresh [OF cc]
  have "map Client_name (clients db') = map Client_name (clients db) @ [n]"
    using F by (simp add: I(3))
  moreover have "map ip_address (computers db') = map ip_address (computers db) @ map fst cs"
    using F by (simp add: I(3))
  moreover have "fst ` set cs \<inter> ip_address ` set (computers db) = {}"
    using G by (simp add: I(3))
  ultimately show ?thesis using n cs I(1) by blast
qed

lemma create_loop_append:
  "create_loop db (xs @ ys) =
     (case create_loop db xs of Inl x \<Rightarrow> Inl x | Inr db1 \<Rightarrow> create_loop db1 ys)"
  by (induction xs arbitrary: db) (auto split: sum.splits)

lemma create_loop_facts:
  "create_loop db data = Inr db' \<Longrightarrow>
   Client_name ` set (clients db') =
     Client_name ` set (clients db) \<union> {n. Some n \<in> key_client ` set data} \<and>
   ip_address ` set (computers db) \<subseteq> ip_address ` set (computers db') \<and>
   distinct (map key_client data) \<and>
   (\<forall>e\<in>set data. \<forall>n. key_client e = Some n \<longrightarrow> n \<notin> Client_name ` set (clients db)) \<and>
   (\<forall>e\<in>set data. \<forall>cs. key_computers e = Some cs \<longrightarrow>
      fst ` set cs \<inter> ip_address ` set (computers db) = {})"
proof (induction data arbitrary: db)
  case Nil
  then show ?case by simp
next
  case (Cons e rest)
  from Cons.prems obtain db1 where ce: "create_entry db e = Inr db1"
    and rec: "create_loop db1 rest = Inr db'"
    by (auto split: sum.splits)
  from create_entry_facts [OF ce] obtain n cs where
    E: "key_client e = Some n" "key_computers e = Some cs"
      "n \<notin> Client_name ` set (clients db)"
      "map Client_name (clients db1) = map Client_name (clients db) @ [n]"
      "map ip_address (computers db1) = map ip_address (computers db) @ map fst cs"
      "fst ` set cs \<inter> ip_address ` set (computers db) = {}"
    by blast
  from Cons.IH [OF rec] have
    H: "Client_name ` set (clients db') =
          Client_name ` set (clients db1) \<union> {n. Some n \<in> key_client ` set rest}"
      "ip_address ` set (computers db1) \<subseteq> ip_address ` set (computers db')"
      "distinct (map key_client rest)"
      "\<forall>e\<in>set rest. \<forall>n. key_client e = Some n \<longrightarrow> n \<notin> Client_name ` set (clients db1)"
      "\<forall>e\<in>set rest. \<forall>cs. key_computers e = Some cs \<longrightarrow>
          fst ` set cs \<inter> ip_address ` set (computers db1) = {}"
    by simp_all
  have "set (map Client_name (clients db1)) = set (map Client_name (clients db) @ [n])"
    by (simp only: E(4))
  then have names1: "Client_name ` set (clients db1) = insert n (Client_name ` set (clients db))"
    by simp
  have "set (map ip_address (computers db1)) = set (map ip_address (computers db) @ map fst cs)"
    by (simp only: E(5))
  then have ips1: "ip_address ` set (computers db1) =
                   ip_address ` set (computers db) \<union> fst ` set cs"
    by simp
  have G1: "Client_name ` set (clients db') =
     Client_name ` set (clients db) \<union> {n. Some n \<in> key_client ` set (e # rest)}"
    unfolding H(1) names1 using E(1) by auto
  have G2: "ip_address ` set (computers db) \<subseteq> ip_address ` set (computers db')"
    using H(2) ips1 by blast
  have "key_client e \<notin> key_client ` set rest"
  proof
    assume "key_client e \<in> key_client ` set rest"
    then obtain e' where e': "e' \<in> set rest" "key_client e' = Some n" using E(1) by auto
    with H(4) have "n \<notin> Client_name ` set (clients db1)" by blast
    then show False using names1 by simp
  qed
  then have G3: "distinct (map key_client (e # rest))" using H(3) by simp
  have G4: "\<forall>e\<in>set (e # rest). \<forall>n. key_client e = Some n \<longrightarrow>
              n \<notin> Client_name ` set (clients db)"
    using E(1) E(3) H(4) names1 by auto
  have G5: "\<forall>e\<in>set (e # rest). \<forall>cs. key_computers e = Some cs \<longrightarrow>
      fst ` set cs \<inter> ip_address ` set (computers db) = {}"
  proof (intro ballI allI impI)
    fix e' cs'
    assume e': "e' \<in> set (e # rest)" and k': "key_computers e' = Some cs'"
    show "fst ` set cs' \<inter> ip_address ` set (computers db) = {}"
    proof (cases "e' = e")
      case True
      then have "cs' = cs" using k' E(2) by simp
      then show ?thesis using E(6) by simp
    next
      case False
      then have "e' \<in> set rest" using e' by simp
      with H(5) k' have "fst ` set cs' \<inter> ip_address ` set (computers db1) = {}" by blast
      then show ?thesis unfolding ips1 by blast
    qed
  qed
  show ?case using G1 G2 G3 G4 G5 by blast
qed

lemma create_entry_exists:
  assumes "key_client e = Some n" "key_computers e = Some cs" "n \<noteq> []" "cs \<noteq> []"
    and "n \<in> Client_name ` set (clients db)"
  shows "create_entry db e = Inl (already_exists n)"
proof -
  have "n \<in> set (map Client_name (clients db))" using assms(5) by simp
  from find_name_Some [OF this] obtain client
    where "find (\<lambda>c. Client_name c = n) (clients db) = Some client" by blast
  then show ?thesis using assms(1-4) by (simp add: create_entry_def)
qed

lemma create_entry_clash:
  assumes kc: "key_client e = Some n" and kcs: "key_computers e = Some cs" and nz: "n \<noteq> []"
    and nn: "n \<notin> Client_name ` set (clients db)"
    and clash: "\<exists>item\<in>set cs. fst item \<in> ip_address ` set (computers db)"
  shows "create_entry db e = Inl (IntegrityError ''computers.ip_address'')"
proof -
  let ?i = "next_id (map Client_id (clients db))"
  let ?db1 = "db\<lparr>clients := clients db @ [\<lparr>Client_id = ?i, Client_name = n\<rparr>]\<rparr>"
  have csz: "cs \<noteq> []" using clash by auto
  have fn: "find (\<lambda>c. Client_name c = n) (clients db) = None"
    using nn by (auto simp: find_None_iff)
  have ic: "insert_client db n = Inr (?i, ?db1)"
    using nn by (simp add: insert_client_def Let_def)
  have "\<exists>item\<in>set cs. fst item \<in> ip_address ` set (computers ?db1)" using clash by simp
  from create_computers_clash [OF this]
  have cc: "create_computers ?db1 ?i cs = Inl (IntegrityError ''computers.ip_address'')" .
  show ?thesis
    unfolding create_entry_def kc kcs using nz csz by (simp add: fn ic cc)
qed

lemma create_clients_fails_at:
  "create_loop db pre = Inr db1 \<Longrightarrow> create_entry db1 e = Inl x \<Longrightarrow>
   create_clients db (pre @ e # post) = (Inl (HTTPException 500 (Str x)), db)"
  by (simp add: create_clients_def transaction_def create_loop_append)

lemma create_clients_Inl:
  "create_loop db data = Inl x \<Longrightarrow>
   create_clients db data = (Inl (HTTPException 500 (Str x)), db)"
  by (simp add: create_clients_def transaction_def)

subsection \<open>Which fault a taken name gives\<close>

text \<open>
  The loop stops at the first entry that fails, and the test of the format comes before
  the lookup of the name.
\<close>

lemma valid_format_iff:
  "valid_format e \<longleftrightarrow>
   (\<exists>n cs. key_client e = Some n \<and> n \<noteq> [] \<and> key_computers e = Some cs \<and> cs \<noteq> [])"
  by (cases "key_client e"; cases "key_computers e") (auto simp: valid_format_def dict_get_def)

lemma create_entry_invalid:
  "\<not> valid_format e \<Longrightarrow> create_entry db e = Inl invalid_data"
  by (cases "key_client e"; cases "key_computers e")
     (auto simp: valid_format_def dict_get_def create_entry_def)

lemma create_entry_Inl:
  assumes "create_entry db e = Inl x"
  shows "x = invalid_data \<or> x = IntegrityError ''computers.ip_address'' \<or>
     (\<exists>n. key_client e = Some n \<and> x = already_exists n)"
proof (cases "valid_format e")
  case False
  from create_entry_invalid [OF False] assms show ?thesis by simp
next
  case True
  then obtain n cs where k: "key_client e = Some n" "n \<noteq> []" "key_computers e = Some cs" "cs \<noteq> []"
    unfolding valid_format_iff by blast
  show ?thesis
  proof (cases "find (\<lambda>c. Client_name c = n) (clients db)")
    case (Some c)
    with assms k show ?thesis by (simp add: create_entry_def)
  next
    case None
    then have nn: "n \<notin> set (map Client_name (clients db))" by (auto simp: find_None_iff)
    let ?i = "next_id (map Client_id (clients db))"
    let ?db1 = "db\<lparr>clients := clients db @ [\<lparr>Client_id = ?i, Client_name = n\<rparr>]\<rparr>"
    have ic: "insert_client db n = Inr (?i, ?db1)"
      using nn by (simp add: insert_client_def Let_def)
    from assms k None ic have "create_computers ?db1 ?i cs = Inl x"
      by (simp add: create_entry_def)
    from create_computers_Inl [OF this] show ?thesis by simp
  qed
qed

lemma create_loop_Inl:
  "create_loop db data = Inl x \<Longrightarrow>
   x = invalid_data \<or> x = IntegrityError ''computers.ip_address'' \<or>
   (\<exists>n. Some n \<in> key_client ` set data \<and> x = already_exists n)"
proof (induction data arbitrary: db)
  case Nil
  then show ?case by simp
next
  case (Cons e rest)
  show ?case
  proof (cases "create_entry db e")
    case (Inl y)
    with Cons.prems have "y = x" by simp
    with create_entry_Inl [OF Inl] show ?thesis by force
  next
    case (Inr db1)
    with Cons.prems have "create_loop db1 rest = Inl x" by simp
    from Cons.IH [OF this] show ?thesis by auto
  qed
qed

lemma create_computers_accepts:
  "distinct (map fst d) \<Longrightarrow> fst ` set d \<inter> ip_address ` set (computers db) = {} \<Longrightarrow>
   \<exists>db'. create_computers db cid d = Inr db'"
proof (induction d arbitrary: db)
  case Nil
  then show ?case by simp
next
  case (Cons a rest)
  obtain ip cd where a: "a = (ip, cd)" by (cases a)
  let ?l = "dict_get (key_latency cd) None" and ?h = "dict_get (key_hostname cd) None"
  let ?i = "next_id (map Computer_id (computers db))"
  let ?db1 = "db\<lparr>computers := computers db @
           [\<lparr>Computer_id = ?i, ip_address = ip, latency = ?l, hostname = ?h, client_id = cid\<rparr>]\<rparr>"
  let ?db2 = "create_ports ?db1 ?i (dict_get (key_ports cd) [])"
  have fresh: "ip \<notin> set (map ip_address (computers db))" using Cons.prems(2) a by auto
  have ins: "insert_computer db (ip, ?l, ?h, cid) = Inr (?i, ?db1)"
    using fresh by (simp add: insert_computer_def Let_def)
  have ips: "ip_address ` set (computers ?db2) = insert ip (ip_address ` set (computers db))"
    by (simp add: create_ports_computers)
  have "ip \<notin> fst ` set rest" using Cons.prems(1) a by simp
  then have dis: "fst ` set rest \<inter> ip_address ` set (computers ?db2) = {}"
    unfolding ips using Cons.prems(2) by auto
  have "distinct (map fst rest)" using Cons.prems(1) by simp
  from Cons.IH [OF this dis] obtain db' where "create_computers ?db2 cid rest = Inr db'" by blast
  then show ?case using a ins by simp
qed

lemma create_entry_accepts:
  assumes v: "valid_format e" and nn: "dict_get (key_client e) [] \<notin> Client_name ` set (clients db)"
    and d: "distinct (entry_ips e)"
    and f: "set (entry_ips e) \<inter> ip_address ` set (computers db) = {}"
  shows "\<exists>db'. create_entry db e = Inr db'"
proof -
  from v obtain n cs where k: "key_client e = Some n" "n \<noteq> []" "key_computers e = Some cs" "cs \<noteq> []"
    unfolding valid_format_iff by blast
  have n: "n \<notin> set (map Client_name (clients db))" using nn k by (simp add: dict_get_def)
  let ?i = "next_id (map Client_id (clients db))"
  let ?db1 = "db\<lparr>clients := clients db @ [\<lparr>Client_id = ?i, Client_name = n\<rparr>]\<rparr>"
  have ic: "insert_client db n = Inr (?i, ?db1)"
    using n by (simp add: insert_client_def Let_def)
  have d': "distinct (map fst cs)" using d k by (simp add: entry_ips_def dict_get_def)
  have f': "fst ` set cs \<inter> ip_address ` set (computers ?db1) = {}"
    using f k by (simp add: entry_ips_def dict_get_def)
  from create_computers_accepts [OF d' f'] obtain db' where
    "create_computers ?db1 ?i cs = Inr db'" by blast
  then show ?thesis using k ic find_name_None [OF n] by (simp add: create_entry_def)
qed

lemma create_loop_accepts:
  "\<forall>e\<in>set pre. valid_format e \<Longrightarrow> distinct (map key_client pre) \<Longrightarrow>
   Client_name ` set (clients db) \<inter> {n. Some n \<in> key_client ` set pre} = {} \<Longrightarrow>
   distinct (concat (map entry_ips pre)) \<Longrightarrow>
   set (concat (map entry_ips pre)) \<inter> ip_address ` set (computers db) = {} \<Longrightarrow>
   \<exists>db1. create_loop db pre = Inr db1"
proof (induction pre arbitrary: db)
  case Nil
  then show ?case by simp
next
  case (Cons e rest)
  from Cons.prems(1) have v: "valid_format e" by simp
  then obtain n cs where k: "key_client e = Some n" "n \<noteq> []" "key_computers e = Some cs" "cs \<noteq> []"
    unfolding valid_format_iff by blast
  have ips_e: "entry_ips e = map fst cs" using k by (simp add: entry_ips_def dict_get_def)
  have nn: "dict_get (key_client e) [] \<notin> Client_name ` set (clients db)"
    using Cons.prems(3) k by (auto simp: dict_get_def)
  have d: "distinct (entry_ips e)" using Cons.prems(4) by simp
  have f: "set (entry_ips e) \<inter> ip_address ` set (computers db) = {}"
    using Cons.prems(5) by auto
  from create_entry_accepts [OF v nn d f] obtain db1 where ce: "create_entry db e = Inr db1"
    by blast
  from create_entry_facts [OF ce] k have
    names: "map Client_name (clients db1) = map Client_name (clients db) @ [n]" and
    ips: "map ip_address (computers db1) = map ip_address (computers db) @ map fst cs"
    by auto
  have "set (map Client_name (clients db1)) = set (map Client_name (clients db) @ [n])"
    by (simp only: names)
  then have names1: "Client_name ` set (clients db1) = insert n (Client_name ` set (clients db))"
    by simp
  have "set (map ip_address (computers db1)) = set (map ip_address (computers db) @ map fst cs)"
    by (simp only: ips)
  then have ips1: "ip_address ` set (computers db1) =
                   ip_address ` set (computers db) \<union> set (entry_ips e)"
    by (simp add: ips_e)
  have p1: "\<forall>e\<in>set rest. valid_format e" using Cons.prems(1) by simp
  have p2: "distinct (map key_client rest)" using Cons.prems(2) by simp
  have "Some n \<notin> key_client ` set rest" using Cons.prems(2) k by auto
  then have p3: "Client_name ` set (clients db1) \<inter> {n. Some n \<in> key_client ` set rest} = {}"
    unfolding names1 using Cons.prems(3) by auto
  have p4: "distinct (concat (map entry_ips rest))" using Cons.prems(4) by simp
  have "set (entry_ips e) \<inter> set (concat (map entry_ips rest)) = {}"
    using Cons.prems(4) by simp
  then have p5: "set (concat (map entry_ips rest)) \<inter> ip_address ` set (computers db1) = {}"
    unfolding ips1 using Cons.prems(5) by auto
  from Cons.IH [OF p1 p2 p3 p4 p5] obtain db2 where "create_loop db1 rest = Inr db2" by blast
  then show ?case using ce by simp
qed

lemma create_entry_taken:
  assumes kc: "key_client e = Some n" and t: "n \<in> Client_name ` set (clients db)"
  shows "create_entry db e = Inl (HTTPException 400 (Text
           (if valid_format e then ''Client '' @ quoted n @ '' already exists''
            else ''Invalid data format'')))"
proof (cases "valid_format e")
  case False
  from create_entry_invalid [OF False] False show ?thesis by (simp add: invalid_data_def)
next
  case True
  then obtain n' cs where k: "key_client e = Some n'" "n' \<noteq> []" "key_computers e = Some cs" "cs \<noteq> []"
    unfolding valid_format_iff by blast
  with kc have "n' = n" by simp
  with k have k': "key_computers e = Some cs" "n \<noteq> []" "cs \<noteq> []" by simp_all
  from create_entry_exists [OF kc k'(1) k'(2) k'(3) t] True
  show ?thesis by (simp add: already_exists_def)
qed

text \<open>
  The name \<open>acme\<close> is stored and the entry has an empty \<open>computers\<close> dict: the fault is
  \<open>Invalid data format\<close>, not \<open>already exists\<close>. The same holds for a name that an
  earlier entry of the call has created.
\<close>

theorem create_name_taken_counterexample:
  "''acme'' \<in> Client_name ` set (clients acme_db) \<and>
   key_client bare_entry = Some ''acme'' \<and>
   create_clients acme_db [bare_entry] =
     (Inl (HTTPException 500 (Str (HTTPException 400 (Text ''Invalid data format'')))), acme_db) \<and>
   create_clients empty_db [acme_entry, bare_entry] =
     (Inl (HTTPException 500 (Str (HTTPException 400 (Text ''Invalid data format'')))), empty_db)"
  by (simp add: create_clients_def transaction_def create_entry_def invalid_data_def
      insert_client_def insert_computer_def insert_port_def next_id_def dict_get_def
      acme_db_def empty_db_def acme_entry_def bare_entry_def)

text \<open>
  Claim C4: a bulk-create whose input has two entries with the same client name, or an
  entry whose client name is stored already, fails and leaves the database as it was,
  whatever came before that entry in the call; the fault is that of the first entry that
  fails, one of \<open>Invalid data format\<close>, the UNIQUE failure on an address and
  \<open>Client '...' already exists\<close> for a name of the call. When the entries before the
  entry with the taken name are accepted, the fault is the 400
  \<open>Client '...' already exists\<close> if that entry has a name and computers, and the 400
  \<open>Invalid data format\<close> if not. The entries before it are accepted when each has a
  name and computers, and their names and addresses are distinct and not stored. Every
  fault leaves the handler inside a 500.
\<close>

theorem create_name_taken:
  "((\<not> distinct (map key_client data) \<or>
     (\<exists>e\<in>set data. \<exists>n. key_client e = Some n \<and> n \<in> Client_name ` set (clients db))) \<longrightarrow>
      (\<exists>x. create_clients db data = (Inl (HTTPException 500 (Str x)), db) \<and>
         (x = HTTPException 400 (Text ''Invalid data format'') \<or>
          x = IntegrityError ''computers.ip_address'' \<or>
          (\<exists>n. Some n \<in> key_client ` set data \<and>
             x = HTTPException 400 (Text (''Client '' @ quoted n @ '' already exists'')))))) \<and>
   (create_loop db pre = Inr db1 \<and> key_client e = Some n \<and>
    (n \<in> Client_name ` set (clients db) \<or> Some n \<in> key_client ` set pre) \<longrightarrow>
      create_clients db (pre @ e # post) =
        (Inl (HTTPException 500 (Str (HTTPException 400 (Text
           (if valid_format e then ''Client '' @ quoted n @ '' already exists''
            else ''Invalid data format''))))), db)) \<and>
   ((\<forall>e\<in>set pre. valid_format e) \<and> distinct (map key_client pre) \<and>
    Client_name ` set (clients db) \<inter> {n. Some n \<in> key_client ` set pre} = {} \<and>
    distinct (concat (map entry_ips pre)) \<and>
    set (concat (map entry_ips pre)) \<inter> ip_address ` set (computers db) = {} \<and>
    valid_format e \<and> key_client e = Some n \<and>
    (n \<in> Client_name ` set (clients db) \<or> Some n \<in> key_client ` set pre) \<longrightarrow>
      create_clients db (pre @ e # post) =
        (Inl (HTTPException 500 (Str (HTTPException 400
           (Text (''Client '' @ quoted n @ '' already exists''))))), db))"
proof -
  have at: "create_clients db' (pre' @ e # post) =
        (Inl (HTTPException 500 (Str (HTTPException 400 (Text
           (if valid_format e then ''Client '' @ quoted n @ '' already exists''
            else ''Invalid data format''))))), db')"
    if pre: "create_loop db' pre' = Inr db2" and kc: "key_client e = Some n"
      and taken: "n \<in> Client_name ` set (clients db') \<or> Some n \<in> key_client ` set pre'"
    for db' pre' db2
  proof -
    from create_loop_facts [OF pre]
    have "Client_name ` set (clients db2) =
       Client_name ` set (clients db') \<union> {n. Some n \<in> key_client ` set pre'}" by simp
    with taken have "n \<in> Client_name ` set (clients db2)" by blast
    from create_clients_fails_at [OF pre create_entry_taken [OF kc this]]
    show ?thesis .
  qed
  show ?thesis
  proof (intro conjI impI)
    assume H: "\<not> distinct (map key_client data) \<or>
       (\<exists>e\<in>set data. \<exists>n. key_client e = Some n \<and> n \<in> Client_name ` set (clients db))"
    show "\<exists>x. create_clients db data = (Inl (HTTPException 500 (Str x)), db) \<and>
         (x = HTTPException 400 (Text ''Invalid data format'') \<or>
          x = IntegrityError ''computers.ip_address'' \<or>
          (\<exists>n. Some n \<in> key_client ` set data \<and>
             x = HTTPException 400 (Text (''Client '' @ quoted n @ '' already exists''))))"
    proof (cases "create_loop db data")
      case (Inl x)
      from create_clients_Inl [OF Inl] create_loop_Inl [OF Inl] show ?thesis
        unfolding invalid_data_def already_exists_def by blast
    next
      case (Inr db')
      from create_loop_facts [OF Inr] have "distinct (map key_client data)"
        and "\<forall>e\<in>set data. \<forall>n. key_client e = Some n \<longrightarrow> n \<notin> Client_name ` set (clients db)"
        by simp_all
      with H show ?thesis by blast
    qed
  next
    assume A: "create_loop db pre = Inr db1 \<and> key_client e = Some n \<and>
      (n \<in> Client_name ` set (clients db) \<or> Some n \<in> key_client ` set pre)"
    then show "create_clients db (pre @ e # post) =
        (Inl (HTTPException 500 (Str (HTTPException 400 (Text
           (if valid_format e then ''Client '' @ quoted n @ '' already exists''
            else ''Invalid data format''))))), db)"
      using at [of db pre db1] by blast
  next
    assume B: "(\<forall>e\<in>set pre. valid_format e) \<and> distinct (map key_client pre) \<and>
      Client_name ` set (clients db) \<inter> {n. Some n \<in> key_client ` set pre} = {} \<and>
      distinct (concat (map entry_ips pre)) \<and>
      set (concat (map entry_ips pre)) \<inter> ip_address ` set (computers db) = {} \<and>
      valid_format e \<and> key_client e = Some n \<and>
      (n \<in> Client_name ` set (clients db) \<or> Some n \<in> key_client ` set pre)"
    then have b: "\<forall>e\<in>set pre. valid_format e" "distinct (map key_client pre)"
      "Client_name ` set (clients db) \<inter> {n. Some n \<in> key_client ` set pre} = {}"
      "distinct (concat (map entry_ips pre))"
      "set (concat (map entry_ips pre)) \<inter> ip_address ` set (computers db) = {}"
      and v: "valid_format e" and kc: "key_client e = Some n"
      and taken: "n \<in> Client_name ` set (clients db) \<or> Some n \<in> key_client ` set pre"
      by simp_all
    from create_loop_accepts [OF b] obtain db2 where "create_loop db pre = Inr db2" by blast
    from at [OF this kc taken] v
    show "create_clients db (pre @ e # post) =
        (Inl (HTTPException 500 (Str (HTTPException 400
           (Text (''Client '' @ quoted n @ '' already exists''))))), db)"
      by simp
  qed
qed

theorem create_name_taken_witness:
  "(\<exists>x. create_clients empty_db [acme_entry, acme_entry] =
          (Inl (HTTPException 500 (Str x)), empty_db) \<and>
         (x = HTTPException 400 (Text ''Invalid data format'') \<or>
          x = IntegrityError ''computers.ip_address'' \<or>
          (\<exists>n. Some n \<in> key_client ` set [acme_entry, acme_entry] \<and>
             x = HTTPException 400 (Text (''Client '' @ quoted n @ '' already exists''))))) \<and>
   create_clients acme_db [globex_entry, bare_entry] =
     (Inl (HTTPException 500 (Str (HTTPException 400 (Text ''Invalid data format'')))),
      acme_db) \<and>
   create_clients acme_db [globex_entry, acme_entry] =
     (Inl (HTTPException 500 (Str (HTTPException 400
        (Text (''Client '' @ quoted ''acme'' @ '' already exists''))))), acme_db) \<and>
   create_clients empty_db [acme_entry, acme_entry] =
     (Inl (HTTPException 500 (Str (HTTPException 400
        (Text (''Client '' @ quoted ''acme'' @ '' already exists''))))), empty_db)"
proof -
  have d: "\<not> distinct (map key_client [acme_entry, acme_entry])" by simp
  have a: "\<exists>x. create_clients empty_db [acme_entry, acme_entry] =
          (Inl (HTTPException 500 (Str x)), empty_db) \<and>
         (x = HTTPException 400 (Text ''Invalid data format'') \<or>
          x = IntegrityError ''computers.ip_address'' \<or>
          (\<exists>n. Some n \<in> key_client ` set [acme_entry, acme_entry] \<and>
             x = HTTPException 400 (Text (''Client '' @ quoted n @ '' already exists''))))"
    using create_name_taken [where data = "[acme_entry, acme_entry]" and db = empty_db
        and pre = "[]" and ?db1.0 = empty_db and e = acme_entry and n = "''acme''"
        and post = "[]"] d
    by blast
  have ka: "key_client acme_entry = Some ''acme''" by (simp add: acme_entry_def)
  have kb: "key_client bare_entry = Some ''acme''" by (simp add: bare_entry_def)
  have va: "valid_format acme_entry"
    by (simp add: valid_format_def dict_get_def acme_entry_def)
  have vb: "\<not> valid_format bare_entry"
    by (simp add: valid_format_def dict_get_def bare_entry_def)
  have stored: "''acme'' \<in> Client_name ` set (clients acme_db)" by (simp add: acme_db_def)
  have "\<exists>db2. create_loop acme_db [globex_entry] = Inr db2"
    by (simp add: create_entry_def insert_client_def insert_computer_def insert_port_def
        next_id_def dict_get_def acme_db_def globex_entry_def)
  then obtain db2 where p2: "create_loop acme_db [globex_entry] = Inr db2" by blast
  have "create_clients acme_db ([globex_entry] @ bare_entry # []) =
     (Inl (HTTPException 500 (Str (HTTPException 400 (Text
           (if valid_format bare_entry then ''Client '' @ quoted ''acme'' @ '' already exists''
            else ''Invalid data format''))))), acme_db)"
    using create_name_taken [where data = "[]" and db = acme_db and pre = "[globex_entry]"
        and ?db1.0 = db2 and e = bare_entry and n = "''acme''" and post = "[]"] p2 kb stored
    by blast
  then have b: "create_clients acme_db [globex_entry, bare_entry] =
     (Inl (HTTPException 500 (Str (HTTPException 400 (Text ''Invalid data format'')))),
      acme_db)"
    using vb by simp
  have "create_clients acme_db ([globex_entry] @ acme_entry # []) =
     (Inl (HTTPException 500 (Str (HTTPException 400 (Text
           (if valid_format acme_entry then ''Client '' @ quoted ''acme'' @ '' already exists''
            else ''Invalid data format''))))), acme_db)"
    using create_name_taken [where data = "[]" and db = acme_db and pre = "[globex_entry]"
        and ?db1.0 = db2 and e = acme_entry and n = "''acme''" and post = "[]"] p2 ka stored
    by blast
  then have c: "create_clients acme_db [globex_entry, acme_entry] =
     (Inl (HTTPException 500 (Str (HTTPException 400
        (Text (''Client '' @ quoted ''acme'' @ '' already exists''))))), acme_db)"
    using va by simp
  have h1: "\<forall>e\<in>set [acme_entry]. valid_format e" using va by simp
  have h2: "distinct (map key_client [acme_entry])" by simp
  have h3: "Client_name ` set (clients empty_db) \<inter>
              {n. Some n \<in> key_client ` set [acme_entry]} = {}"
    by (simp add: empty_db_def)
  have h4: "distinct (concat (map entry_ips [acme_entry]))"
    by (simp add: entry_ips_def dict_get_def acme_entry_def)
  have h5: "set (concat (map entry_ips [acme_entry])) \<inter>
              ip_address ` set (computers empty_db) = {}"
    by (simp add: empty_db_def)
  have h6: "''acme'' \<in> Client_name ` set (clients empty_db) \<or>
            Some ''acme'' \<in> key_client ` set [acme_entry]"
    by (simp add: ka)
  have "create_clients empty_db ([acme_entry] @ acme_entry # []) =
     (Inl (HTTPException 500 (Str (HTTPException 400
        (Text (''Client '' @ quoted ''acme'' @ '' already exists''))))), empty_db)"
    using create_name_taken [where data = "[]" and db = empty_db and pre = "[acme_entry]"
        and ?db1.0 = empty_db and e = acme_entry and n = "''acme''" and post = "[]"]
      h1 h2 h3 h4 h5 h6 va ka
    by blast
  then have e: "create_clients empty_db [acme_entry, acme_entry] =
     (Inl (HTTPException 500 (Str (HTTPException 400
        (Text (''Client '' @ quoted ''acme'' @ '' already exists''))))), empty_db)"
    by simp
  show ?thesis using a b c e by simp
qed

text \<open>
  Claim C1: when an address is stored under a client, a bulk-create with an entry that
  gives a computer this address fails and stores nothing, and so does an update of
  another client whose body gives this address. In the bulk-create the fault is the
  integrity error of the unique column \<open>computers.ip_address\<close>, raised at the flush of
  the computer, when the entries before are accepted and the entry names a new client.
  In the update the lookup is by address and client, finds nothing, and the new row
  raises the same integrity error at the commit. Either leaves the handler inside
  a 500.
\<close>

theorem address_taken:
  "((\<exists>e\<in>set data. \<exists>cs. key_computers e = Some cs \<and>
       (\<exists>item\<in>set cs. fst item \<in> ip_address ` set (computers db))) \<longrightarrow>
      (\<exists>y. create_clients db data = (Inl (HTTPException 500 (Str y)), db))) \<and>
   (create_loop db pre = Inr db1 \<and> key_client e = Some n \<and> n \<noteq> [] \<and>
    n \<notin> Client_name ` set (clients db) \<and> Some n \<notin> key_client ` set pre \<and>
    key_computers e = Some cs \<and> (x, cd) \<in> set cs \<and>
    x \<in> ip_address ` set (computers db) \<longrightarrow>
      create_clients db (pre @ e # post) =
        (Inl (HTTPException 500 (Str (IntegrityError ''computers.ip_address''))), db)) \<and>
   (keys_ok db \<and> b \<in> set (clients db) \<and> Client_name b = m \<and>
    r \<in> set (computers db) \<and> ip_address r = x \<and> client_id r \<noteq> Client_id b \<and>
    (x, cd) \<in> set d \<longrightarrow>
      update_client db m \<lparr>upd_computers = Some d\<rparr> =
        (Inl (HTTPException 500 (Str (IntegrityError ''computers.ip_address''))), db))"
proof (intro conjI impI)
  assume H: "\<exists>e\<in>set data. \<exists>cs. key_computers e = Some cs \<and>
       (\<exists>item\<in>set cs. fst item \<in> ip_address ` set (computers db))"
  show "\<exists>y. create_clients db data = (Inl (HTTPException 500 (Str y)), db)"
  proof (cases "create_loop db data")
    case (Inl y)
    from create_clients_Inl [OF Inl] show ?thesis by blast
  next
    case (Inr db')
    from create_loop_facts [OF Inr]
    have "\<forall>e\<in>set data. \<forall>cs. key_computers e = Some cs \<longrightarrow>
      fst ` set cs \<inter> ip_address ` set (computers db) = {}" by simp
    with H show ?thesis by blast
  qed
next
  assume A: "create_loop db pre = Inr db1 \<and> key_client e = Some n \<and> n \<noteq> [] \<and>
    n \<notin> Client_name ` set (clients db) \<and> Some n \<notin> key_client ` set pre \<and>
    key_computers e = Some cs \<and> (x, cd) \<in> set cs \<and>
    x \<in> ip_address ` set (computers db)"
  then have pre: "create_loop db pre = Inr db1" and kc: "key_client e = Some n"
    and nz: "n \<noteq> []" and n1: "n \<notin> Client_name ` set (clients db)"
    and n2: "Some n \<notin> key_client ` set pre" and kcs: "key_computers e = Some cs"
    and mem: "(x, cd) \<in> set cs" and ex: "x \<in> ip_address ` set (computers db)"
    by simp_all
  from create_loop_facts [OF pre]
  have names: "Client_name ` set (clients db1) =
     Client_name ` set (clients db) \<union> {n. Some n \<in> key_client ` set pre}"
    and ips: "ip_address ` set (computers db) \<subseteq> ip_address ` set (computers db1)"
    by simp_all
  have nn: "n \<notin> Client_name ` set (clients db1)" unfolding names using n1 n2 by simp
  have "fst (x, cd) \<in> ip_address ` set (computers db1)" using ex ips by auto
  with mem have "\<exists>item\<in>set cs. fst item \<in> ip_address ` set (computers db1)" by blast
  from create_entry_clash [OF kc kcs nz nn this]
  have "create_entry db1 e = Inl (IntegrityError ''computers.ip_address'')" .
  from create_clients_fails_at [OF pre this]
  show "create_clients db (pre @ e # post) =
        (Inl (HTTPException 500 (Str (IntegrityError ''computers.ip_address''))), db)" .
next
  assume A: "keys_ok db \<and> b \<in> set (clients db) \<and> Client_name b = m \<and>
    r \<in> set (computers db) \<and> ip_address r = x \<and> client_id r \<noteq> Client_id b \<and>
    (x, cd) \<in> set d"
  then have k: "keys_ok db" and b: "b \<in> set (clients db)" and m: "Client_name b = m"
    and r: "r \<in> set (computers db)" and x: "ip_address r = x"
    and ne: "client_id r \<noteq> Client_id b" and mem: "(x, cd) \<in> set d"
    by simp_all
  have f: "find (\<lambda>c. Client_name c = m) (clients db) = Some b"
    using find_client [OF k b] m by simp
  have dip: "distinct (map ip_address (computers db))" using k by (simp add: keys_ok_def)
  have other: "\<not> (\<exists>r'\<in>set (computers db). ip_address r' = x \<and> client_id r' = Client_id b)"
  proof
    assume "\<exists>r'\<in>set (computers db). ip_address r' = x \<and> client_id r' = Client_id b"
    then obtain r' where r': "r' \<in> set (computers db)" "ip_address r' = x"
      "client_id r' = Client_id b" by blast
    with key_eq_iff [OF dip r'(1) r] x have "r' = r" by simp
    with r'(3) ne show False by simp
  qed
  have ex: "x \<in> ip_address ` set (computers db)" using r x by auto
  from update_client_clash [OF f mem ex other]
  show "update_client db m \<lparr>upd_computers = Some d\<rparr> =
        (Inl (HTTPException 500 (Str (IntegrityError ''computers.ip_address''))), db)" .
qed

theorem address_taken_witness:
  "(\<exists>y. create_clients acme_db [clash_entry] = (Inl (HTTPException 500 (Str y)), acme_db)) \<and>
   create_clients acme_db [clash_entry] =
     (Inl (HTTPException 500 (Str (IntegrityError ''computers.ip_address''))), acme_db) \<and>
   update_client acme_globex_db ''globex'' clash_patch =
     (Inl (HTTPException 500 (Str (IntegrityError ''computers.ip_address''))), acme_globex_db)"
proof -
  let ?cd = "\<lparr>key_latency = Some (Some ''9ms''), key_hostname = None, key_ports = None\<rparr>"
  let ?b = "\<lparr>Client_id = 2, Client_name = ''globex''\<rparr>"
  let ?r = "\<lparr>Computer_id = 1, ip_address = ''10.0.0.1'', latency = Some ''2ms'',
             hostname = Some ''web1'', client_id = 1\<rparr>"
  have kc: "key_client clash_entry = Some ''globex''"
    and kcs: "key_computers clash_entry = Some [(''10.0.0.1'', ?cd)]"
    by (simp_all add: clash_entry_def)
  have ex: "''10.0.0.1'' \<in> ip_address ` set (computers acme_db)" by (simp add: acme_db_def)
  have nn: "''globex'' \<notin> Client_name ` set (clients acme_db)" by (simp add: acme_db_def)
  have p0: "create_loop acme_db [] = Inr acme_db" by simp
  have "\<exists>e\<in>set [clash_entry]. \<exists>cs. key_computers e = Some cs \<and>
       (\<exists>item\<in>set cs. fst item \<in> ip_address ` set (computers acme_db))"
    using kcs ex by simp
  then have a: "\<exists>y. create_clients acme_db [clash_entry] =
      (Inl (HTTPException 500 (Str y)), acme_db)"
    using address_taken [where data = "[clash_entry]" and db = acme_db] by blast
  have b: "create_clients acme_db ([] @ clash_entry # []) =
     (Inl (HTTPException 500 (Str (IntegrityError ''computers.ip_address''))), acme_db)"
    using address_taken [where db = acme_db and pre = "[]" and ?db1.0 = acme_db
        and e = clash_entry and n = "''globex''" and cs = "[(''10.0.0.1'', ?cd)]"
        and x = "''10.0.0.1''" and cd = ?cd and post = "[]"]
      p0 kc kcs ex nn
    by simp
  have k: "keys_ok acme_globex_db"
    by (simp add: keys_ok_def acme_globex_db_def)
  have m: "?b \<in> set (clients acme_globex_db)" "?r \<in> set (computers acme_globex_db)"
    by (simp_all add: acme_globex_db_def)
  have c: "update_client acme_globex_db ''globex''
             \<lparr>upd_computers = Some [(''10.0.0.1'', ?cd)]\<rparr> =
     (Inl (HTTPException 500 (Str (IntegrityError ''computers.ip_address''))), acme_globex_db)"
    using address_taken [where db = acme_globex_db and b = ?b and m = "''globex''"
        and r = ?r and x = "''10.0.0.1''" and cd = ?cd and d = "[(''10.0.0.1'', ?cd)]"]
      k m
    by simp
  show ?thesis using a b c by (simp add: clash_patch_def)
qed

section \<open>The constraints hold after every request\<close>

lemma pending_key_simp: "pending_key (port, service, cid) = (cid, port)"
  by (simp add: pending_key_def)

lemma find_SomeD: "find P xs = Some x \<Longrightarrow> x \<in> set xs \<and> P x"
  by (induction xs) (auto split: if_splits)

lemma dict_ok_Nil: "dict_ok []"
  by (simp add: dict_ok_def)

lemma inv_db_cong:
  assumes "clients db' = clients db"
    and "map Computer_id (computers db') = map Computer_id (computers db)"
    and "map ip_address (computers db') = map ip_address (computers db)"
    and "map client_id (computers db') = map client_id (computers db)"
    and "map Port_id (ports db') = map Port_id (ports db)"
    and "map port_key (ports db') = map port_key (ports db)"
    and "inv_db db"
  shows "inv_db db'"
proof -
  have k: "keys_ok db" and o: "owned db" and u: "port_unique db"
    using assms(7) by (simp_all add: inv_db_def)
  have k': "keys_ok db'"
    using k by (simp add: keys_ok_def assms(1-5))
  have u': "port_unique db'"
    using u by (simp add: port_unique_def assms(6))
  have ci: "Computer_id ` set (computers db') = Computer_id ` set (computers db)"
    using arg_cong [OF assms(2), of set] by simp
  have cc: "client_id ` set (computers db') = client_id ` set (computers db)"
    using arg_cong [OF assms(4), of set] by simp
  have "map fst (map port_key (ports db')) = map fst (map port_key (ports db))"
    by (simp only: assms(6))
  then have "map computer_id (ports db') = map computer_id (ports db)"
    by (simp add: port_key_def comp_def)
  from arg_cong [OF this, of set]
  have pc: "computer_id ` set (ports db') = computer_id ` set (ports db)" by simp
  have "client_id ` set (computers db) \<subseteq> Client_id ` set (clients db)"
    and "computer_id ` set (ports db) \<subseteq> Computer_id ` set (computers db)"
    using o by (auto simp: owned_def)
  then have "client_id ` set (computers db') \<subseteq> Client_id ` set (clients db')"
    and "computer_id ` set (ports db') \<subseteq> Computer_id ` set (computers db')"
    by (simp_all add: ci cc pc assms(1))
  then have o': "owned db'" by (auto simp: owned_def)
  show ?thesis using k' o' u' by (simp add: inv_db_def)
qed

lemma session_ok_cong:
  assumes ok: "session_ok s cl"
    and c: "clients (persistent s') = clients (persistent s)"
    and i: "map Computer_id (computers (persistent s')) = map Computer_id (computers (persistent s))"
    and a: "map ip_address (computers (persistent s')) = map ip_address (computers (persistent s))"
    and o: "map client_id (computers (persistent s')) = map client_id (computers (persistent s))"
    and p: "map Port_id (ports (persistent s')) = map Port_id (ports (persistent s))"
    and k: "map port_key (ports (persistent s')) = map port_key (ports (persistent s))"
    and nc: "new_computers s' = new_computers s"
    and np: "new_ports s' = new_ports s"
  shows "session_ok s' cl"
proof -
  have inv: "inv_db (persistent s')"
    using inv_db_cong [OF c i a o p k] ok by (simp add: session_ok_def)
  have ci: "Computer_id ` set (computers (persistent s')) =
            Computer_id ` set (computers (persistent s))"
    using arg_cong [OF i, of set] by simp
  have pk: "port_key ` set (ports (persistent s')) = port_key ` set (ports (persistent s))"
    using arg_cong [OF k, of set] by simp
  show ?thesis using ok inv by (simp add: session_ok_def c nc np ci pk)
qed

lemma update_port_ok:
  assumes ok: "session_ok s cl"
    and cid: "cid \<in> Computer_id ` set (computers (persistent s))"
    and fresh: "(cid, fst item) \<notin> pending_key ` set (new_ports s)"
  shows "session_ok (update_port s cid item) cl"
    and "pending_key ` set (new_ports (update_port s cid item)) \<subseteq>
         insert (cid, fst item) (pending_key ` set (new_ports s))"
proof -
  obtain port service where item: "item = (port, service)" by (cases item)
  let ?P = "\<lambda>p. computer_id p = cid \<and> port_number p = port"
  have "session_ok (update_port s cid item) cl \<and>
        pending_key ` set (new_ports (update_port s cid item)) \<subseteq>
          insert (cid, fst item) (pending_key ` set (new_ports s))"
  proof (cases "find ?P (ports (persistent s))")
    case None
    then have nokey: "(cid, port) \<notin> port_key ` set (ports (persistent s))"
      by (auto simp: find_None_iff port_key_def)
    have eq: "update_port s cid item = s\<lparr>new_ports := new_ports s @ [(port, service, cid)]\<rparr>"
      by (simp add: update_port_def item None)
    have "session_ok (s\<lparr>new_ports := new_ports s @ [(port, service, cid)]\<rparr>) cl"
      using ok fresh nokey cid item
      by (simp add: session_ok_def pending_key_simp)
    then show ?thesis unfolding eq by (auto simp: pending_key_simp item)
  next
    case (Some pe)
    have eq: "update_port s cid item = set_service_name s (Port_id pe) service"
      by (simp add: update_port_def item Some)
    have "session_ok (set_service_name s (Port_id pe) service) cl"
      by (rule session_ok_cong [OF ok]) (simp_all add: set_service_name_frame)
    then show ?thesis unfolding eq by (auto simp: set_service_name_frame)
  qed
  then show "session_ok (update_port s cid item) cl"
    and "pending_key ` set (new_ports (update_port s cid item)) \<subseteq>
         insert (cid, fst item) (pending_key ` set (new_ports s))"
    by simp_all
qed

lemma update_ports_ok:
  assumes "session_ok s cl" "cid \<in> Computer_id ` set (computers (persistent s))"
    "distinct (map fst d)" "\<forall>k\<in>fst ` set d. (cid, k) \<notin> pending_key ` set (new_ports s)"
  shows "session_ok (update_ports s cid d) cl \<and>
     pending_key ` set (new_ports (update_ports s cid d)) \<subseteq>
       pending_key ` set (new_ports s) \<union> {cid} \<times> fst ` set d"
  using assms
proof (induction d arbitrary: s)
  case Nil
  then show ?case by simp
next
  case (Cons item d)
  let ?s1 = "update_port s cid item"
  have f: "(cid, fst item) \<notin> pending_key ` set (new_ports s)" using Cons.prems(4) by simp
  note U = update_port_ok [OF Cons.prems(1) Cons.prems(2) f]
  have cid1: "cid \<in> Computer_id ` set (computers (persistent ?s1))"
    using Cons.prems(2) by (simp add: update_port_frame)
  have d1: "distinct (map fst d)" and ni: "fst item \<notin> fst ` set d"
    using Cons.prems(3) by simp_all
  have f1: "\<forall>k\<in>fst ` set d. (cid, k) \<notin> pending_key ` set (new_ports ?s1)"
  proof
    fix k assume k: "k \<in> fst ` set d"
    show "(cid, k) \<notin> pending_key ` set (new_ports ?s1)"
    proof
      assume "(cid, k) \<in> pending_key ` set (new_ports ?s1)"
      with U(2) have "(cid, k) = (cid, fst item) \<or> (cid, k) \<in> pending_key ` set (new_ports s)"
        by blast
      then show False using k ni Cons.prems(4) by auto
    qed
  qed
  from Cons.IH [OF U(1) cid1 d1 f1]
  have IH: "session_ok (update_ports ?s1 cid d) cl"
    "pending_key ` set (new_ports (update_ports ?s1 cid d)) \<subseteq>
       pending_key ` set (new_ports ?s1) \<union> {cid} \<times> fst ` set d"
    by simp_all
  have "pending_key ` set (new_ports (update_ports ?s1 cid d)) \<subseteq>
       pending_key ` set (new_ports s) \<union> {cid} \<times> fst ` set (item # d)"
    using IH(2) U(2) by auto
  then show ?case using IH(1) by simp
qed

lemma update_computer_ok:
  assumes ok: "session_ok s cl"
    and pd: "dict_ok (dict_get (key_ports (snd item)) [])"
    and un: "untouched s (insert (fst item) ips)"
    and nin: "fst item \<notin> ips"
  shows "session_ok (update_computer s cl item) cl \<and> untouched (update_computer s cl item) ips"
proof -
  obtain ip cd where item: "item = (ip, cd)" by (cases item)
  let ?Q = "\<lambda>c. ip_address c = ip \<and> client_id c = cl"
  show ?thesis
  proof (cases "find ?Q (computers (persistent s))")
    case None
    let ?s1 = "s\<lparr>new_computers := new_computers s @
         [(ip, dict_get (key_latency cd) None, dict_get (key_hostname cd) None, cl)]\<rparr>"
    have eq: "update_computer s cl item = ?s1"
      unfolding item by (rule update_computer_missing [OF None])
    have "session_ok ?s1 cl" using ok by (simp add: session_ok_def)
    moreover have "untouched ?s1 ips" using un by (simp add: untouched_def)
    ultimately show ?thesis unfolding eq by simp
  next
    case (Some computer)
    from find_SomeD [OF Some] have cin: "computer \<in> set (computers (persistent s))"
      and cip: "ip_address computer = ip" by simp_all
    let ?k = "Computer_id computer"
    let ?s1 = "set_computer s ?k (dict_get (key_latency cd) (latency computer))
                 (dict_get (key_hostname cd) (hostname computer))"
    let ?d = "dict_get (key_ports cd) []"
    let ?s2 = "update_ports ?s1 ?k ?d"
    have eq: "update_computer s cl item = ?s2"
      unfolding item by (rule update_computer_found [OF Some])
    have ok1: "session_ok ?s1 cl"
      by (rule session_ok_cong [OF ok]) (simp_all add: set_computer_frame)
    have ids1: "Computer_id ` set (computers (persistent ?s1)) =
                Computer_id ` set (computers (persistent s))"
      using arg_cong [OF set_computer_frame(5), of set] by simp
    have kin: "?k \<in> Computer_id ` set (computers (persistent ?s1))"
      unfolding ids1 using cin by simp
    have nopend: "?k \<notin> fst ` pending_key ` set (new_ports s)"
    proof
      assume "?k \<in> fst ` pending_key ` set (new_ports s)"
      with un cin have "ip_address computer \<notin> insert (fst item) ips"
        by (simp add: untouched_def)
      then show False using cip item by simp
    qed
    have dist: "distinct (map fst ?d)" using pd item by (simp add: dict_ok_def)
    have fr: "\<forall>p\<in>fst ` set ?d. (?k, p) \<notin> pending_key ` set (new_ports ?s1)"
    proof
      fix p assume "p \<in> fst ` set ?d"
      show "(?k, p) \<notin> pending_key ` set (new_ports ?s1)"
      proof
        assume "(?k, p) \<in> pending_key ` set (new_ports ?s1)"
        then have "(?k, p) \<in> pending_key ` set (new_ports s)"
          by (simp add: set_computer_frame)
        then have "fst (?k, p) \<in> fst ` pending_key ` set (new_ports s)" by (rule imageI)
        then show False using nopend by simp
      qed
    qed
    from update_ports_ok [OF ok1 kin dist fr]
    have ok2: "session_ok ?s2 cl"
      and sub: "pending_key ` set (new_ports ?s2) \<subseteq>
                pending_key ` set (new_ports s) \<union> {?k} \<times> fst ` set ?d"
      by (simp_all add: set_computer_frame)
    have pairs: "map (\<lambda>r. (Computer_id r, ip_address r)) (computers (persistent ?s2)) =
                 map (\<lambda>r. (Computer_id r, ip_address r)) (computers (persistent s))"
      unfolding update_ports_computers
      by (rule map_pair_cong) (simp_all add: set_computer_frame)
    have dids: "distinct (map Computer_id (computers (persistent s)))"
      using ok by (simp add: session_ok_def inv_db_def keys_ok_def)
    have un2: "untouched ?s2 ips"
      unfolding untouched_def
    proof (intro ballI impI)
      fix r assume r: "r \<in> set (computers (persistent ?s2))"
        and pend: "Computer_id r \<in> fst ` pending_key ` set (new_ports ?s2)"
      from r have "(Computer_id r, ip_address r) \<in>
          set (map (\<lambda>r. (Computer_id r, ip_address r)) (computers (persistent ?s2)))"
        by (simp add: image_iff) blast
      then have "(Computer_id r, ip_address r) \<in>
          set (map (\<lambda>r. (Computer_id r, ip_address r)) (computers (persistent s)))"
        unfolding pairs .
      then obtain r0 where r0: "r0 \<in> set (computers (persistent s))"
        "Computer_id r0 = Computer_id r" "ip_address r0 = ip_address r"
        by auto
      from pend obtain key where key: "key \<in> pending_key ` set (new_ports ?s2)"
        "Computer_id r = fst key" by auto
      from key(1) sub have "key \<in> pending_key ` set (new_ports s) \<or> fst key = ?k" by auto
      then show "ip_address r \<notin> ips"
      proof
        assume "key \<in> pending_key ` set (new_ports s)"
        then have "Computer_id r0 \<in> fst ` pending_key ` set (new_ports s)"
          using key(2) r0(2) by auto
        with un r0(1) have "ip_address r0 \<notin> insert (fst item) ips"
          by (simp add: untouched_def)
        then show ?thesis using r0(3) by simp
      next
        assume "fst key = ?k"
        then have "Computer_id r0 = Computer_id computer" using key(2) r0(2) by simp
        with key_eq_iff [OF dids r0(1) cin] have "r0 = computer" by simp
        then have "ip_address r = ip" using r0(3) cip by simp
        then show ?thesis using nin item by simp
      qed
    qed
    show ?thesis unfolding eq using ok2 un2 by simp
  qed
qed

lemma update_computers_ok:
  assumes "session_ok s cl" "computers_ok d" "untouched s (fst ` set d)"
  shows "session_ok (update_computers s cl d) cl"
  using assms
proof (induction d arbitrary: s)
  case Nil
  then show ?case by simp
next
  case (Cons item d)
  have pd: "dict_ok (dict_get (key_ports (snd item)) [])"
    and rest: "computers_ok d" and nin: "fst item \<notin> fst ` set d"
    using Cons.prems(2) by (auto simp: computers_ok_def dict_ok_def)
  have un: "untouched s (insert (fst item) (fst ` set d))"
    using Cons.prems(3) by simp
  from update_computer_ok [OF Cons.prems(1) pd un nin]
  have "session_ok (update_computer s cl item) cl"
    and "untouched (update_computer s cl item) (fst ` set d)"
    by simp_all
  from Cons.IH [OF this(1) rest this(2)] show ?case by simp
qed

lemma insert_computers_ok:
  assumes "insert_computers db cs = Inr db'" "inv_db db"
    "cl \<in> Client_id ` set (clients db)" "\<forall>c\<in>set cs. snd (snd (snd c)) = cl"
  shows "inv_db db' \<and> ports db' = ports db \<and>
         Computer_id ` set (computers db) \<subseteq> Computer_id ` set (computers db')"
  using assms
proof (induction cs arbitrary: db)
  case Nil
  then show ?case by simp
next
  case (Cons c cs)
  obtain ip l h cid where c: "c = (ip, l, h, cid)" by (cases c)
  have cid: "cid = cl" using Cons.prems(4) c by simp
  from Cons.prems(1) obtain i db1 where ins: "insert_computer db (ip, l, h, cl) = Inr (i, db1)"
    and rec: "insert_computers db1 cs = Inr db'"
    unfolding c cid by (auto split: sum.splits)
  note L = add_computer_inv [OF Cons.prems(2) Cons.prems(3) dict_ok_Nil ins]
  have inv1: "inv_db db1" using L(1) by simp
  have cl1: "cl \<in> Client_id ` set (clients db1)" using L(2) Cons.prems(3) by simp
  have po1: "ports db1 = ports db" using L(4) by auto
  have co1: "Computer_id ` set (computers db) \<subseteq> Computer_id ` set (computers db1)"
    using L(3) by auto
  have rest: "\<forall>c\<in>set cs. snd (snd (snd c)) = cl" using Cons.prems(4) by simp
  from Cons.IH [OF rec inv1 cl1 rest] po1 co1 show ?case by auto
qed

lemma insert_port_ok:
  assumes "inv_db db" "pending_key q \<notin> port_key ` set (ports db)"
    "fst (pending_key q) \<in> Computer_id ` set (computers db)"
  shows "inv_db (insert_port db q)"
    and "port_key ` set (ports (insert_port db q)) =
         insert (pending_key q) (port_key ` set (ports db))"
    and "computers (insert_port db q) = computers db"
proof -
  obtain port service cid where q: "q = (port, service, cid)" by (cases q)
  from assms show "inv_db (insert_port db q)"
    unfolding q
    by (auto simp: inv_db_def keys_ok_def owned_def port_unique_def port_key_def
        insert_port_def pending_key_simp next_id_fresh_image)
  show "port_key ` set (ports (insert_port db q)) =
         insert (pending_key q) (port_key ` set (ports db))"
    unfolding q by (simp add: insert_port_def port_key_def pending_key_simp)
  show "computers (insert_port db q) = computers db"
    unfolding q by (simp add: insert_port_def)
qed

lemma insert_ports_ok:
  assumes "inv_db db" "distinct (map pending_key qs)"
    "\<forall>q\<in>set qs. pending_key q \<notin> port_key ` set (ports db) \<and>
       fst (pending_key q) \<in> Computer_id ` set (computers db)"
  shows "inv_db (fold (\<lambda>p d. insert_port d p) qs db)"
  using assms
proof (induction qs arbitrary: db)
  case Nil
  then show ?case by simp
next
  case (Cons q qs)
  have q1: "pending_key q \<notin> port_key ` set (ports db)"
    and q2: "fst (pending_key q) \<in> Computer_id ` set (computers db)"
    using Cons.prems(3) by simp_all
  note P = insert_port_ok [OF Cons.prems(1) q1 q2]
  have d: "distinct (map pending_key qs)" and nq: "pending_key q \<notin> pending_key ` set qs"
    using Cons.prems(2) by simp_all
  have "\<forall>q'\<in>set qs. pending_key q' \<notin> port_key ` set (ports (insert_port db q)) \<and>
       fst (pending_key q') \<in> Computer_id ` set (computers (insert_port db q))"
  proof
    fix q' assume q': "q' \<in> set qs"
    have "pending_key q' \<noteq> pending_key q"
    proof
      assume "pending_key q' = pending_key q"
      then have "pending_key q \<in> pending_key ` set qs" using q' by (metis imageI)
      with nq show False by simp
    qed
    moreover have "pending_key q' \<notin> port_key ` set (ports db)"
      and "fst (pending_key q') \<in> Computer_id ` set (computers db)"
      using Cons.prems(3) q' by simp_all
    ultimately show "pending_key q' \<notin> port_key ` set (ports (insert_port db q)) \<and>
       fst (pending_key q') \<in> Computer_id ` set (computers (insert_port db q))"
      unfolding P(2) P(3) by simp
  qed
  from Cons.IH [OF P(1) d this] show ?case by simp
qed

lemma commit_ok:
  assumes ok: "session_ok s cl" and c: "commit s = Inr db'"
  shows "inv_db db'"
proof -
  from c obtain db1 where i: "insert_computers (persistent s) (new_computers s) = Inr db1"
    and f: "db' = fold (\<lambda>p d. insert_port d p) (new_ports s) db1"
    by (auto simp: commit_def split: sum.splits)
  have inv: "inv_db (persistent s)" and cl: "cl \<in> Client_id ` set (clients (persistent s))"
    and nc: "\<forall>c\<in>set (new_computers s). snd (snd (snd c)) = cl"
    and dk: "distinct (map pending_key (new_ports s))"
    and np: "\<forall>q\<in>set (new_ports s).
        pending_key q \<notin> port_key ` set (ports (persistent s)) \<and>
        fst (pending_key q) \<in> Computer_id ` set (computers (persistent s))"
    using ok by (simp_all add: session_ok_def)
  from insert_computers_ok [OF i inv cl nc]
  have inv1: "inv_db db1" and po: "ports db1 = ports (persistent s)"
    and co: "Computer_id ` set (computers (persistent s)) \<subseteq> Computer_id ` set (computers db1)"
    by simp_all
  have "\<forall>q\<in>set (new_ports s). pending_key q \<notin> port_key ` set (ports db1) \<and>
       fst (pending_key q) \<in> Computer_id ` set (computers db1)"
    unfolding po using np co by blast
  from insert_ports_ok [OF inv1 dk this] show ?thesis unfolding f .
qed

lemma update_client_inv:
  assumes inv: "inv_db db" and ok: "computers_ok (dict_get (upd_computers data) [])"
  shows "inv_db (snd (update_client db n data))"
proof (cases "find (\<lambda>c. Client_name c = n) (clients db)")
  case None
  then show ?thesis using inv by (simp add: update_client_def transaction_def)
next
  case (Some client)
  let ?init = "\<lparr>persistent = db, new_computers = [], new_ports = []\<rparr>"
  let ?d = "dict_get (upd_computers data) []"
  let ?fin = "update_computers ?init (Client_id client) ?d"
  from find_SomeD [OF Some] have cin: "client \<in> set (clients db)" by simp
  have ok0: "session_ok ?init (Client_id client)"
    using inv cin by (simp add: session_ok_def)
  have un0: "untouched ?init (fst ` set ?d)" by (simp add: untouched_def)
  from update_computers_ok [OF ok0 ok un0]
  have okf: "session_ok ?fin (Client_id client)" .
  show ?thesis
  proof (cases "commit ?fin")
    case (Inl e)
    then show ?thesis using inv Some by (simp add: update_client_def transaction_def)
  next
    case (Inr db')
    from commit_ok [OF okf Inr] show ?thesis
      using Some Inr by (simp add: update_client_def transaction_def)
  qed
qed

lemma create_clients_inv:
  assumes inv: "inv_db db" and ok: "\<forall>e\<in>set data. client_data_ok e"
  shows "inv_db (snd (create_clients db data))"
proof (cases "create_loop db data")
  case (Inl e)
  then show ?thesis using inv by (simp add: create_clients_def transaction_def)
next
  case (Inr db')
  from create_loop_inv [OF Inr inv ok] show ?thesis
    using Inr by (simp add: create_clients_def transaction_def)
qed

lemma delete_client_inv:
  assumes inv: "inv_db db"
  shows "inv_db (snd (delete_client db n))"
  using inv delete_cascade_inv [OF inv]
  by (simp add: delete_client_def transaction_def split: option.splits)

lemma handle_inv: "inv_db db \<Longrightarrow> request_ok r \<Longrightarrow> inv_db (handle db r)"
  by (cases r) (simp_all add: create_clients_inv update_client_inv delete_client_inv)

lemma serve_inv: "inv_db db \<Longrightarrow> \<forall>r\<in>set rs. request_ok r \<Longrightarrow> inv_db (serve db rs)"
  unfolding serve_def
proof (induction rs arbitrary: db)
  case Nil
  then show ?case by simp
next
  case (Cons r rs)
  have "inv_db (handle db r)" using Cons.prems by (simp add: handle_inv)
  from Cons.IH [OF this] Cons.prems(2) show ?case by simp
qed

text \<open>
  Claim C9: after any sequence of bulk-create, partial-update and delete requests, from
  the empty database, every computer has at most one port row for a port number, although
  the schema declares no such constraint. The keys of each dict of a request are distinct.
  The same holds from any database in which the schema's constraints hold, no row is
  an orphan and the port rows are unique already.
\<close>

theorem ports_stay_unique:
  assumes "\<forall>r\<in>set rs. request_ok r"
  shows "port_unique (serve empty_db rs) \<and>
         (inv_db db \<longrightarrow> inv_db (serve db rs) \<and> port_unique (serve db rs))"
proof -
  have "inv_db (serve empty_db rs)" using serve_inv [OF inv_empty assms] .
  moreover have "inv_db (serve db rs)" if "inv_db db" using serve_inv [OF that assms] .
  ultimately show ?thesis by (simp add: inv_db_def)
qed

theorem ports_stay_unique_witness:
  "request_ok (Create [acme_entry]) \<and> request_ok (Update ''acme'' port_patch) \<and>
   request_ok (Delete ''nobody'') \<and>
   port_unique (serve empty_db [Create [acme_entry], Update ''acme'' port_patch,
                                Update ''acme'' port_patch, Delete ''nobody'']) \<and>
   map port_key (ports (serve empty_db [Create [acme_entry], Update ''acme'' port_patch,
                                Update ''acme'' port_patch, Delete ''nobody''])) =
     [(1, ''80''), (1, ''443''), (1, ''22'')]"
proof -
  let ?rs = "[Create [acme_entry], Update ''acme'' port_patch, Update ''acme'' port_patch,
              Delete ''nobody'']"
  have ok: "\<forall>r\<in>set ?rs. request_ok r"
    by (simp add: client_data_ok_def computers_ok_def dict_ok_def dict_get_def acme_entry_def
        port_patch_def)
  have run: "map port_key (ports (serve empty_db ?rs)) = [(1, ''80''), (1, ''443''), (1, ''22'')]"
    by (simp add: serve_def create_clients_def transaction_def create_entry_def
        insert_client_def insert_computer_def insert_port_def next_id_def dict_get_def
        empty_db_def acme_entry_def port_patch_def update_client_def update_computer_def
        update_port_def set_computer_def set_service_name_def commit_def delete_client_def
        port_key_def)
  from ports_stay_unique [OF ok, of empty_db] run
  have "port_unique (serve empty_db ?rs) \<and>
        map port_key (ports (serve empty_db ?rs)) = [(1, ''80''), (1, ''443''), (1, ''22'')]"
    by simp
  moreover from ok have "request_ok (Create [acme_entry]) \<and>
      request_ok (Update ''acme'' port_patch) \<and> request_ok (Delete ''nobody'')"
    by simp
  ultimately show ?thesis by blast
qed

end
